theory Spec2Isabelle
  imports Complex_Main
begin

chapter \<open>The model\<close>


section \<open>Shared data model\<close>

text \<open>
  The MCDM engine (\<^verbatim>\<open>src/mcdm/mcdm_utils.py\<close>) works on NumPy arrays of floats. A
  two-dimensional array is modelled as the list of its rows, every row of the same
  length; the empty list stands for the array of shape (0, 0). Floats are modelled as
  exact reals: rounding, overflow and underflow of 64-bit floats are not modelled, and
  no property below is about them. Every exception the Python raises is a value
  \<open>Inl e\<close> of the result.

  \<open>NonFinite\<close> is the one value of \<open>py_error\<close> that is no Python exception. NumPy
  divides floats by zero without raising: it prints a RuntimeWarning and the quotient is
  nan or an infinity. No real number stands for such a quotient, so the divisions of the
  TOPSIS engine (\<open>np_divide\<close> below) end with \<open>Inl NonFinite\<close> at a zero divisor.
\<close>

datatype py_error =
  IndexError | ValueError | ZeroDivisionError | LinAlgError | KeyError | TypeError | NonFinite

type_synonym vec = "real list"

type_synonym matrix = "real list list"

definition ncols :: "matrix \<Rightarrow> nat" where
  "ncols M = (case M of [] \<Rightarrow> 0 | r # _ \<Rightarrow> length r)"

text \<open>\<open>shape M m n\<close>: \<open>M\<close> is a well-formed array of shape (m, n).\<close>

definition shape :: "matrix \<Rightarrow> nat \<Rightarrow> nat \<Rightarrow> bool" where
  "shape M m n \<longleftrightarrow> length M = m \<and> (\<forall>r \<in> set M. length r = n)"

text \<open>\<^verbatim>\<open>np.ones((m, n))\<close>\<close>

definition ones :: "nat \<Rightarrow> nat \<Rightarrow> matrix" where
  "ones m n = replicate m (replicate n 1)"

text \<open>
  NumPy resolves an integer index against an axis of size \<open>n\<close>: \<open>0 \<le> i < n\<close> is
  taken as it is, \<open>-n \<le> i < 0\<close> counts from the end, anything else raises IndexError.
\<close>

definition np_index :: "nat \<Rightarrow> int \<Rightarrow> nat option" where
  "np_index n i =
     (if 0 \<le> i \<and> i < int n then Some (nat i)
      else if - int n \<le> i \<and> i < 0 then Some (nat (i + int n))
      else None)"

text \<open>\<^verbatim>\<open>M[i, j] = v\<close> and \<^verbatim>\<open>M[i, j]\<close>\<close>

definition setitem2 :: "matrix \<Rightarrow> int \<Rightarrow> int \<Rightarrow> real \<Rightarrow> py_error + matrix" where
  "setitem2 M i j v =
     (case np_index (length M) i of
        None \<Rightarrow> Inl IndexError
      | Some a \<Rightarrow>
          (case np_index (ncols M) j of
             None \<Rightarrow> Inl IndexError
           | Some b \<Rightarrow> Inr (M[a := (M ! a)[b := v]])))"

definition getitem2 :: "matrix \<Rightarrow> int \<Rightarrow> int \<Rightarrow> py_error + real" where
  "getitem2 M i j =
     (case np_index (length M) i of
        None \<Rightarrow> Inl IndexError
      | Some a \<Rightarrow>
          (case np_index (ncols M) j of
             None \<Rightarrow> Inl IndexError
           | Some b \<Rightarrow> Inr (M ! a ! b)))"


section \<open>AHP: building the comparison matrix\<close>

text \<open>
  \<^verbatim>\<open>create_comparison_matrix(comparisons, n)\<close>. The dictionary is the list of its items
  in iteration order (its keys are distinct). One round of the loop handles one item:
  both branches \<^verbatim>\<open>i < j\<close> and \<^verbatim>\<open>i > j\<close> write the value at (i, j) and its reciprocal at
  (j, i); an item with \<^verbatim>\<open>i == j\<close> is skipped. The value is a Python number, so
  \<^verbatim>\<open>1 / value\<close> raises ZeroDivisionError at 0, after the first write.
\<close>

definition place_pair :: "matrix \<Rightarrow> int \<Rightarrow> int \<Rightarrow> real \<Rightarrow> py_error + matrix" where
  "place_pair M i j v =
     (case setitem2 M i j v of
        Inl e \<Rightarrow> Inl e
      | Inr M1 \<Rightarrow> if v = 0 then Inl ZeroDivisionError else setitem2 M1 j i (1 / v))"

fun comparison_item :: "matrix \<Rightarrow> (int \<times> int) \<times> real \<Rightarrow> py_error + matrix" where
  "comparison_item M ((i, j), v) =
     (if i < j then place_pair M i j v
      else if i > j then place_pair M i j v
      else Inr M)"

fun comparison_loop :: "matrix \<Rightarrow> ((int \<times> int) \<times> real) list \<Rightarrow> py_error + matrix" where
  "comparison_loop M [] = Inr M"
| "comparison_loop M (c # cs) =
     (case comparison_item M c of Inl e \<Rightarrow> Inl e | Inr M' \<Rightarrow> comparison_loop M' cs)"

definition create_comparison_matrix ::
  "((int \<times> int) \<times> real) list \<Rightarrow> nat \<Rightarrow> py_error + matrix" where
  "create_comparison_matrix comparisons n = comparison_loop (ones n n) comparisons"

text \<open>
  A judgment set as the amended claim C6 takes it: a dictionary (distinct keys) of
  strictly positive values over pairs of distinct indices below \<open>n\<close>, in which a pair
  given in both orientations carries reciprocal values.
\<close>

definition judgments_ok :: "((int \<times> int) \<times> real) list \<Rightarrow> nat \<Rightarrow> bool" where
  "judgments_ok cs n \<longleftrightarrow>
     distinct (map fst cs) \<and>
     (\<forall>c \<in> set cs. 0 \<le> fst (fst c) \<and> fst (fst c) < int n \<and>
                    0 \<le> snd (fst c) \<and> snd (fst c) < int n \<and>
                    fst (fst c) \<noteq> snd (fst c) \<and> 0 < snd c) \<and>
     (\<forall>c \<in> set cs. \<forall>d \<in> set cs.
        fst d = (snd (fst c), fst (fst c)) \<longrightarrow> snd d = 1 / snd c)"

text \<open>\<open>given cs x y w\<close>: some item of \<open>cs\<close> writes the value \<open>w\<close> at entry (x, y).\<close>

definition given :: "((int \<times> int) \<times> real) list \<Rightarrow> nat \<Rightarrow> nat \<Rightarrow> real \<Rightarrow> bool" where
  "given cs x y w \<longleftrightarrow>
     ((int x, int y), w) \<in> set cs \<or> (\<exists>u. ((int y, int x), u) \<in> set cs \<and> w = 1 / u)"


section \<open>NumPy helpers shared by the engines\<close>

text \<open>
  \<^verbatim>\<open>np.isclose(a, b, rtol, atol)\<close> is \<^verbatim>\<open>|a - b| <= atol + rtol * |b|\<close>; the source never
  passes \<^verbatim>\<open>rtol\<close>, so NumPy's default \<^verbatim>\<open>rtol = 1e-05\<close> applies at every call, and
  \<^verbatim>\<open>atol = 1e-08\<close> where the source passes none.
\<close>

definition isclose :: "real \<Rightarrow> real \<Rightarrow> real \<Rightarrow> real \<Rightarrow> bool" where
  "isclose a b rtol atol \<longleftrightarrow> \<bar>a - b\<bar> \<le> atol + rtol * \<bar>b\<bar>"

definition default_rtol :: real where
  "default_rtol = 1 / 100000"

definition default_atol :: real where
  "default_atol = 1 / 100000000"

text \<open>
  \<^verbatim>\<open>np.argsort\<close> is a parameter of the model. The source calls it with the default
  \<^verbatim>\<open>kind\<close>, for which NumPy promises a permutation of the indices that sorts the
  array, and no order among equal elements.
\<close>

type_synonym argsort = "vec \<Rightarrow> nat list"

definition argsort_spec :: "argsort \<Rightarrow> bool" where
  "argsort_spec srt \<longleftrightarrow>
     (\<forall>xs. distinct (srt xs) \<and> set (srt xs) = {0..<length xs} \<and>
           sorted (map (\<lambda>i. xs ! i) (srt xs)))"

text \<open>
  Two of the routines NumPy runs behind the default \<^verbatim>\<open>kind\<close>. Its portable code sorts a
  short array by insertion, which keeps equal elements in index order.
\<close>

definition argsort_stable :: argsort where
  "argsort_stable xs = sort_key (\<lambda>i. xs ! i) [0..<length xs]"

text \<open>
  On x86 processors with AVX2 or AVX-512, NumPy hands an array of 64-bit floats to the
  key-index sorting network of x86-simd-sort. An array of at most four elements is loaded
  into the lanes of one register, the unused lanes padded with +inf (\<open>None\<close> below) and
  index 0, and goes through three rounds of compare-exchange: neighbours, mirrored lanes,
  neighbours. In a round every lane takes the smaller or the larger key of itself and its
  partner lane; it keeps its own index when the key it takes equals its own key, and
  takes the partner's index otherwise. (The register of AVX-512 has eight lanes and
  three more rounds, which exchange nothing among four lanes that are sorted and have
  +inf above them.) The network is not stable. Longer arrays take other paths of the
  library, which are not modelled: \<open>argsort_simd\<close> sorts them by insertion. NaN keys
  are not modelled either.
\<close>

type_synonym lane = "real option \<times> nat"

definition key_le :: "real option \<Rightarrow> real option \<Rightarrow> bool" where
  "key_le a b =
     (case b of None \<Rightarrow> True | Some y \<Rightarrow> (case a of None \<Rightarrow> False | Some x \<Rightarrow> x \<le> y))"

definition cmp_merge :: "lane list \<Rightarrow> nat list \<Rightarrow> bool list \<Rightarrow> lane list" where
  "cmp_merge lanes partner takes_max =
     map (\<lambda>l. let own = lanes ! l;
                   other = lanes ! (partner ! l);
                   lo = (if key_le (fst other) (fst own) then fst other else fst own);
                   hi = (if key_le (fst other) (fst own) then fst own else fst other);
                   key = (if takes_max ! l then hi else lo)
               in (key, if key = fst own then snd own else snd other))
         [0..<length lanes]"

definition argsort_simd :: argsort where
  "argsort_simd xs =
     (if length xs \<le> 4 then
        (let lanes = map2 (\<lambda>x i. (Some x, i)) xs [0..<length xs] @
                       replicate (4 - length xs) (None, 0);
             lanes1 = cmp_merge lanes [1, 0, 3, 2] [False, True, False, True];
             lanes2 = cmp_merge lanes1 [3, 2, 1, 0] [False, False, True, True];
             lanes3 = cmp_merge lanes2 [1, 0, 3, 2] [False, True, False, True]
         in map snd (take (length xs) lanes3))
      else argsort_stable xs)"

text \<open>Python list indexing by a non-negative index, and a run that stops at the first exception.\<close>

definition list_get :: "'a list \<Rightarrow> nat \<Rightarrow> py_error + 'a" where
  "list_get xs i = (if i < length xs then Inr (xs ! i) else Inl IndexError)"

fun collect :: "(py_error + 'a) list \<Rightarrow> py_error + 'a list" where
  "collect [] = Inr []"
| "collect (x # xs) =
     (case x of
        Inl e \<Rightarrow> Inl e
      | Inr a \<Rightarrow> (case collect xs of Inl e \<Rightarrow> Inl e | Inr as \<Rightarrow> Inr (a # as)))"

text \<open>Broadcasting of an (m, n) array against a vector, and of two vectors.\<close>

definition broadcast_rows :: "(real \<Rightarrow> real \<Rightarrow> real) \<Rightarrow> matrix \<Rightarrow> vec \<Rightarrow> py_error + matrix" where
  "broadcast_rows f M v =
     (if length v = ncols M then Inr (map (\<lambda>r. map2 f r v) M)
      else if length v = 1 then Inr (map (map (\<lambda>x. f x (hd v))) M)
      else if ncols M = 1 then Inr (map (\<lambda>r. map (f (hd r)) v) M)
      else Inl ValueError)"

definition broadcast_vec :: "(real \<Rightarrow> real \<Rightarrow> 'a) \<Rightarrow> vec \<Rightarrow> vec \<Rightarrow> py_error + 'a list" where
  "broadcast_vec f xs ys =
     (if length xs = length ys then Inr (map2 f xs ys)
      else if length ys = 1 then Inr (map (\<lambda>x. f x (hd ys)) xs)
      else if length xs = 1 then Inr (map (f (hd xs)) ys)
      else Inl ValueError)"

text \<open>\<^verbatim>\<open>np.where(v == 0, 1, v)\<close>\<close>

definition zero_to_one :: "vec \<Rightarrow> vec" where
  "zero_to_one v = map (\<lambda>x. if x = 0 then 1 else x) v"

text \<open>
  The division of NumPy floats, \<^verbatim>\<open>x / d\<close>, for one element: a zero divisor gives nan or
  an infinity, which is \<open>NonFinite\<close> here. \<open>divide_rows\<close> divides every row of an
  (m, n) array by a vector of length n.
\<close>

definition np_divide :: "real \<Rightarrow> real \<Rightarrow> py_error + real" where
  "np_divide x d = (if d = 0 then Inl NonFinite else Inr (x / d))"

definition divide_rows :: "matrix \<Rightarrow> vec \<Rightarrow> py_error + matrix" where
  "divide_rows M v = collect (map (\<lambda>r. collect (map2 np_divide r v)) M)"

text \<open>\<^verbatim>\<open>np.max\<close> and \<^verbatim>\<open>np.min\<close> of a one-dimensional array; both raise ValueError on an empty one.\<close>

fun np_max :: "vec \<Rightarrow> py_error + real" where
  "np_max [] = Inl ValueError"
| "np_max (x # xs) = Inr (fold max xs x)"

fun np_min :: "vec \<Rightarrow> py_error + real" where
  "np_min [] = Inl ValueError"
| "np_min (x # xs) = Inr (fold min xs x)"

text \<open>
  \<^verbatim>\<open>str.lower()\<close> on the letters A to Z; no other character lower-cases to a letter of
  \<^verbatim>\<open>'benefit'\<close>.
\<close>

definition lower_char :: "char \<Rightarrow> char" where
  "lower_char c =
     (let k = (of_char c :: nat) in if 65 \<le> k \<and> k \<le> 90 then char_of (k + 32) else c)"

definition lower :: "string \<Rightarrow> string" where
  "lower s = map lower_char s"

text \<open>The decimal digits of a number, for the default names \<^verbatim>\<open>f"Alternative_{i}"\<close>.\<close>

fun str_nat :: "nat \<Rightarrow> string" where
  "str_nat n =
     (if n < 10 then [char_of (48 + n)]
      else str_nat (n div 10) @ [char_of (48 + n mod 10)])"

declare str_nat.simps [simp del]


section \<open>TOPSIS\<close>

definition column :: "matrix \<Rightarrow> nat \<Rightarrow> vec" where
  "column M j = map (\<lambda>r. r ! j) M"

text \<open>\<^verbatim>\<open>np.sqrt(np.sum(decision_matrix ** 2, axis=0))\<close>\<close>

definition col_norms :: "matrix \<Rightarrow> vec" where
  "col_norms M = map (\<lambda>j. sqrt (sum_list (map (\<lambda>x. x ^ 2) (column M j)))) [0..<ncols M]"

text \<open>\<^verbatim>\<open>np.sqrt(np.sum(D ** 2, axis=1))\<close>\<close>

definition row_norms :: "matrix \<Rightarrow> vec" where
  "row_norms D = map (\<lambda>r. sqrt (sum_list (map (\<lambda>x. x ^ 2) r))) D"

text \<open>
  \<^verbatim>\<open>normalize_matrix\<close>: the column norms, the norms with 1 in the place of every 0, and
  the division of the array by them.
\<close>

definition normalize_matrix :: "matrix \<Rightarrow> py_error + matrix" where
  "normalize_matrix decision_matrix =
     (let norms = col_norms decision_matrix;
          divisors = zero_to_one norms
      in divide_rows decision_matrix divisors)"

definition weighted_matrix :: "matrix \<Rightarrow> vec \<Rightarrow> py_error + matrix" where
  "weighted_matrix normalized weights = broadcast_rows (*) normalized weights"

text \<open>
  One round of the loop of \<^verbatim>\<open>ideal_solutions\<close>: the pair (ideal[j], negative_ideal[j]).
  The tag is read first (IndexError when the list is too short), then the column's
  maximum and minimum are taken.
\<close>

definition ideal_entry :: "matrix \<Rightarrow> string list \<Rightarrow> nat \<Rightarrow> py_error + (real \<times> real)" where
  "ideal_entry W criteria_types j =
     (case list_get criteria_types j of
        Inl e \<Rightarrow> Inl e
      | Inr tag \<Rightarrow>
          (case (np_max (column W j), np_min (column W j)) of
             (Inr hi, Inr lo) \<Rightarrow>
               if lower tag = ''benefit'' then Inr (hi, lo) else Inr (lo, hi)
           | (Inl e, _) \<Rightarrow> Inl e
           | (_, Inl e) \<Rightarrow> Inl e))"

definition ideal_solutions :: "matrix \<Rightarrow> string list \<Rightarrow> py_error + (vec \<times> vec)" where
  "ideal_solutions W criteria_types =
     (case collect (map (ideal_entry W criteria_types) [0..<ncols W]) of
        Inl e \<Rightarrow> Inl e
      | Inr ps \<Rightarrow> Inr (map fst ps, map snd ps))"

definition separation_measures :: "matrix \<Rightarrow> vec \<Rightarrow> vec \<Rightarrow> py_error + (vec \<times> vec)" where
  "separation_measures W ideal negative_ideal =
     (case broadcast_rows (-) W ideal of
        Inl e \<Rightarrow> Inl e
      | Inr D \<Rightarrow>
          (case broadcast_rows (-) W negative_ideal of
             Inl e \<Rightarrow> Inl e
           | Inr D' \<Rightarrow> Inr (row_norms D, row_norms D')))"

text \<open>
  \<^verbatim>\<open>closeness_scores\<close>: the denominators \<open>S+ + S-\<close>, the denominators with 1 in the
  place of every 0, and the division of \<open>S-\<close> by them.
\<close>

definition closeness_scores :: "vec \<Rightarrow> vec \<Rightarrow> py_error + vec" where
  "closeness_scores s_plus s_minus =
     (case broadcast_vec (+) s_plus s_minus of
        Inl e \<Rightarrow> Inl e
      | Inr denominator \<Rightarrow>
          (case broadcast_vec np_divide s_minus (zero_to_one denominator) of
             Inl e \<Rightarrow> Inl e
           | Inr quotients \<Rightarrow> collect quotients))"

record topsis_result =
  tr_normalized_matrix :: matrix
  tr_weighted_matrix :: matrix
  tr_ideal :: vec
  tr_negative_ideal :: vec
  tr_s_plus :: vec
  tr_s_minus :: vec
  tr_closeness :: vec
  tr_ranking :: "nat list"
  tr_ranked_alternatives :: "string list"
  tr_ranked_scores :: vec

text \<open>
  \<^verbatim>\<open>topsis_rank\<close>. Weights whose sum is not close to 1 are divided by their sum, which
  nothing keeps from being 0. The ranking is \<^verbatim>\<open>np.argsort(-c_scores)\<close>.
\<close>

definition topsis_rank ::
  "argsort \<Rightarrow> matrix \<Rightarrow> vec \<Rightarrow> string list \<Rightarrow> string list option \<Rightarrow> py_error + topsis_result" where
  "topsis_rank srt decision_matrix weights0 criteria_types alternative_names0 =
     (let m = length decision_matrix
      in case (if \<not> isclose (sum_list weights0) 1 default_rtol default_atol
               then collect (map (\<lambda>w. np_divide w (sum_list weights0)) weights0)
               else Inr weights0) of
           Inl e \<Rightarrow> Inl e
         | Inr weights \<Rightarrow>
       (case normalize_matrix decision_matrix of
           Inl e \<Rightarrow> Inl e
         | Inr norm_matrix \<Rightarrow>
       (case weighted_matrix norm_matrix weights of
           Inl e \<Rightarrow> Inl e
         | Inr w_matrix \<Rightarrow>
       (case ideal_solutions w_matrix criteria_types of
           Inl e \<Rightarrow> Inl e
         | Inr (ideal, negative_ideal) \<Rightarrow>
       (case separation_measures w_matrix ideal negative_ideal of
           Inl e \<Rightarrow> Inl e
         | Inr (s_plus, s_minus) \<Rightarrow>
       (case closeness_scores s_plus s_minus of
           Inl e \<Rightarrow> Inl e
         | Inr c_scores \<Rightarrow>
       (let ranking = srt (map uminus c_scores);
            alternative_names =
              (case alternative_names0 of
                 None \<Rightarrow> map (\<lambda>i. ''Alternative_'' @ str_nat i) [0..<m]
               | Some names \<Rightarrow> names)
        in case collect (map (list_get alternative_names) ranking) of
             Inl e \<Rightarrow> Inl e
           | Inr ranked_alternatives \<Rightarrow>
         (case collect (map (list_get c_scores) ranking) of
             Inl e \<Rightarrow> Inl e
           | Inr ranked_scores \<Rightarrow>
               Inr \<lparr>tr_normalized_matrix = norm_matrix, tr_weighted_matrix = w_matrix,
                    tr_ideal = ideal, tr_negative_ideal = negative_ideal,
                    tr_s_plus = s_plus, tr_s_minus = s_minus, tr_closeness = c_scores,
                    tr_ranking = ranking, tr_ranked_alternatives = ranked_alternatives,
                    tr_ranked_scores = ranked_scores\<rparr>))))))))"


section \<open>AHP: priority weights and consistency ratio\<close>

text \<open>
  \<^verbatim>\<open>np.linalg.eig\<close> is a parameter of the model: it returns the eigenvalues \<open>w\<close> and
  the matrix \<open>v\<close> whose column \<open>k\<close> is the eigenvector of \<open>w[k]\<close>, both complex. It
  raises LinAlgError on an array that is not square.
\<close>

type_synonym eig = "matrix \<Rightarrow> complex list \<times> complex list list"

text \<open>\<^verbatim>\<open>np.argmax\<close>: the first index of the maximum; ValueError on an empty array.\<close>

definition np_argmax :: "vec \<Rightarrow> py_error + nat" where
  "np_argmax xs =
     (case np_max xs of
        Inl e \<Rightarrow> Inl e
      | Inr mx \<Rightarrow> Inr (length (takeWhile (\<lambda>x. x \<noteq> mx) xs)))"

text \<open>
  \<^verbatim>\<open>ahp_weights\<close>. The division by the sum of the eigenvector is exact for a non-zero
  sum (NumPy gives nan or inf for a zero sum, and no exception).
\<close>

definition ahp_weights :: "eig \<Rightarrow> matrix \<Rightarrow> py_error + (vec \<times> real \<times> real)" where
  "ahp_weights eig comparison_matrix =
     (let n = length comparison_matrix
      in if \<not> shape comparison_matrix n n then Inl LinAlgError
         else
           (let (eigenvalues, eigenvectors) = eig comparison_matrix
            in case np_argmax (map Re eigenvalues) of
                 Inl e \<Rightarrow> Inl e
               | Inr max_idx \<Rightarrow>
                   (let lambda_max = Re (eigenvalues ! max_idx);
                        principal_eigenvector = map (\<lambda>row. Re (row ! max_idx)) eigenvectors;
                        weights0 = map (\<lambda>x. x / sum_list principal_eigenvector)
                                       principal_eigenvector;
                        weights = (if \<exists>w \<in> set weights0. w < 0
                                   then map uminus weights0 else weights0);
                        ci = (if n > 1 then (lambda_max - real n) / (real n - 1) else 0)
                    in Inr (weights, lambda_max, ci))))"

definition RANDOM_INDEX :: "(nat \<times> real) list" where
  "RANDOM_INDEX =
     [(1, 0.00), (2, 0.00), (3, 0.58), (4, 0.90), (5, 1.12),
      (6, 1.24), (7, 1.32), (8, 1.41), (9, 1.45), (10, 1.49)]"

text \<open>\<^verbatim>\<open>d.get(k, default)\<close>\<close>

definition dict_get :: "('k \<times> 'v) list \<Rightarrow> 'k \<Rightarrow> 'v \<Rightarrow> 'v" where
  "dict_get d k dflt = (case map_of d k of None \<Rightarrow> dflt | Some v \<Rightarrow> v)"

text \<open>The two message templates, with the CR they print to four decimals.\<close>

datatype ahp_message = Consistent real | Inconsistent real

record ahp_result =
  ar_weights :: vec
  ar_lambda_max :: real
  ar_ci :: real
  ar_ri :: real
  ar_cr :: real
  ar_is_consistent :: bool
  ar_message :: ahp_message

definition ahp_consistency_ratio :: "eig \<Rightarrow> matrix \<Rightarrow> py_error + ahp_result" where
  "ahp_consistency_ratio eig comparison_matrix =
     (let n = length comparison_matrix
      in case ahp_weights eig comparison_matrix of
           Inl e \<Rightarrow> Inl e
         | Inr (weights, lambda_max, ci) \<Rightarrow>
             (let ri = dict_get RANDOM_INDEX n 1.49;
                  cr = (if ri > 0 then ci / ri else 0);
                  is_consistent = (cr < 0.10);
                  message = (if is_consistent then Consistent cr else Inconsistent cr)
              in Inr \<lparr>ar_weights = weights, ar_lambda_max = lambda_max, ar_ci = ci,
                      ar_ri = ri, ar_cr = cr, ar_is_consistent = is_consistent,
                      ar_message = message\<rparr>))"



text \<open>
  A solver that answers every call with the eigenpairs of the consistent matrix
  \<open>[[1, 4/3], [3/4, 1]]\<close> of two criteria with weights 4 : 3: the eigenvalues 2 and 0
  with the unit eigenvectors (4/5, 3/5) and (-4/5, 3/5).
\<close>

definition eig_two_criteria :: eig where
  "eig_two_criteria A = ([2, 0], [[4 / 5, - 4 / 5], [3 / 5, 3 / 5]])"

text \<open>
  A solver that answers every call with the eigenpairs of
  \<open>[[1, 2, 1], [1/2, 1, 4], [1, 1/4, 1]]\<close>: the principal eigenvalue 7/2 with the unit
  eigenvector (2/3, 2/3, 1/3), and the complex pair \<open>-1/4 \<plusminus> (3 \<surd>3 / 4) i\<close>.
\<close>

definition eig_three_criteria :: eig where
  "eig_three_criteria A =
     ([7 / 2, Complex (- 1 / 4) (3 * sqrt 3 / 4), Complex (- 1 / 4) (- 3 * sqrt 3 / 4)],
      [[2 / 3, Complex (27 / 4) (3 * sqrt 3 / 4), Complex (27 / 4) (- 3 * sqrt 3 / 4)],
       [2 / 3, Complex (- 9 / 2) (3 * sqrt 3), Complex (- 9 / 2) (- 3 * sqrt 3)],
       [1 / 3, Complex (- 9 / 8) (- 15 * sqrt 3 / 8), Complex (- 9 / 8) (15 * sqrt 3 / 8)]])"


section \<open>AHP: sensitivity analysis over a store of arrays\<close>

text \<open>
  \<^verbatim>\<open>ahp_sensitivity_analysis\<close> receives a reference to the caller's array, copies it and
  writes into the copies. Arrays therefore live in a store: \<open>arrays h a\<close> is the content
  at address \<open>a\<close>, and the addresses below \<open>lim h\<close> are the allocated ones.
  \<^verbatim>\<open>ndarray.copy()\<close> allocates the next address; an item assignment updates the array
  at the address it is given.
\<close>

type_synonym addr = nat

record store =
  arrays :: "addr \<Rightarrow> matrix"
  lim :: addr

definition store_copy :: "store \<Rightarrow> addr \<Rightarrow> addr \<times> store" where
  "store_copy h a = (lim h, h\<lparr>arrays := (arrays h)(lim h := arrays h a), lim := Suc (lim h)\<rparr>)"

definition store_setitem :: "store \<Rightarrow> addr \<Rightarrow> int \<Rightarrow> int \<Rightarrow> real \<Rightarrow> py_error + store" where
  "store_setitem h a i j v =
     (case setitem2 (arrays h a) i j v of
        Inl e \<Rightarrow> Inl e
      | Inr M \<Rightarrow> Inr (h\<lparr>arrays := (arrays h)(a := M)\<rparr>))"

record variation =
  vr_new_value :: real
  vr_weights :: vec
  vr_weight_change :: vec
  vr_cr :: real
  vr_is_consistent :: bool

text \<open>
  The dictionary \<^verbatim>\<open>results['variations']\<close>, in insertion order. Its key is the string
  \<^verbatim>\<open>f"({i},{j})_x{factor:.2f}"\<close>: the two indices in decimal, and the factor rounded to
  two decimals, a half to the even digit, under the sign of the factor. Storing under a
  key that is present replaces the value in place.
\<close>

definition str_int :: "int \<Rightarrow> string" where
  "str_int i = (if i < 0 then ''-'' @ str_nat (nat (- i)) else str_nat (nat i))"

definition half_even :: "real \<Rightarrow> nat" where
  "half_even y =
     (let f = nat \<lfloor>y\<rfloor>; d = y - real f
      in if d < 1 / 2 then f else if 1 / 2 < d then f + 1 else if even f then f else f + 1)"

definition format_2f :: "real \<Rightarrow> string" where
  "format_2f x =
     (let h = half_even (\<bar>x\<bar> * 100)
      in (if x < 0 then ''-'' else []) @ str_nat (h div 100) @ ''.'' @
         [char_of (48 + h mod 100 div 10), char_of (48 + h mod 10)])"

definition variation_key :: "int \<Rightarrow> int \<Rightarrow> real \<Rightarrow> string" where
  "variation_key i j factor =
     ''('' @ str_int i @ '','' @ str_int j @ '')_x'' @ format_2f factor"

type_synonym variations = "(string \<times> variation) list"

fun dict_set :: "('k \<times> 'v) list \<Rightarrow> 'k \<Rightarrow> 'v \<Rightarrow> ('k \<times> 'v) list" where
  "dict_set [] k v = [(k, v)]"
| "dict_set ((k', v') # d) k v = (if k' = k then (k, v) # d else (k', v') # dict_set d k v)"

record sensitivity =
  sn_base_weights :: vec
  sn_variations :: variations

text \<open>
  The body of the inner loop, for one factor: copy the base matrix, write the new value
  and its reciprocal into the copy, and run the consistency analysis on the copy. The
  outcome is paired with the store as the step leaves it, also when it raises. The
  matrix entries are NumPy floats, so \<^verbatim>\<open>1 / new_value\<close> is inf at 0 and does not raise;
  \<^verbatim>\<open>np.linalg.eig\<close> then rejects the array with LinAlgError.
\<close>

definition perturb ::
  "eig \<Rightarrow> addr \<Rightarrow> int \<Rightarrow> int \<Rightarrow> real \<Rightarrow> vec \<Rightarrow> real \<Rightarrow> store \<Rightarrow>
     (py_error + (string \<times> variation)) \<times> store" where
  "perturb eig comparison_matrix i j original_value base_weights factor h =
     (let (varied_matrix, h1) = store_copy h comparison_matrix;
          new_value = original_value * factor
      in case store_setitem h1 varied_matrix i j new_value of
           Inl e \<Rightarrow> (Inl e, h1)
         | Inr h2 \<Rightarrow>
             (case store_setitem h2 varied_matrix j i (1 / new_value) of
                Inl e \<Rightarrow> (Inl e, h2)
              | Inr h3 \<Rightarrow>
                  if new_value = 0 then (Inl LinAlgError, h3)
                  else
                    (case ahp_consistency_ratio eig (arrays h3 varied_matrix) of
                       Inl e \<Rightarrow> (Inl e, h3)
                     | Inr varied_result \<Rightarrow>
                         (case broadcast_vec (-) (ar_weights varied_result) base_weights of
                            Inl e \<Rightarrow> (Inl e, h3)
                          | Inr weight_change \<Rightarrow>
                              (Inr (variation_key i j factor,
                                    \<lparr>vr_new_value = new_value,
                                     vr_weights = ar_weights varied_result,
                                     vr_weight_change = weight_change,
                                     vr_cr = ar_cr varied_result,
                                     vr_is_consistent = ar_is_consistent varied_result\<rparr>),
                               h3)))))"

fun factor_loop ::
  "eig \<Rightarrow> addr \<Rightarrow> int \<Rightarrow> int \<Rightarrow> real \<Rightarrow> vec \<Rightarrow> real list \<Rightarrow> variations \<Rightarrow> store \<Rightarrow>
     (py_error + variations) \<times> store" where
  "factor_loop eig a i j original_value base_weights [] vs h = (Inr vs, h)"
| "factor_loop eig a i j original_value base_weights (factor # fs) vs h =
     (case perturb eig a i j original_value base_weights factor h of
        (Inl e, h') \<Rightarrow> (Inl e, h')
      | (Inr (key, entry), h') \<Rightarrow>
          factor_loop eig a i j original_value base_weights fs (dict_set vs key entry) h')"

fun pair_loop ::
  "eig \<Rightarrow> addr \<Rightarrow> real \<Rightarrow> vec \<Rightarrow> (int \<times> int) list \<Rightarrow> variations \<Rightarrow> store \<Rightarrow>
     (py_error + variations) \<times> store" where
  "pair_loop eig a variation_range base_weights [] vs h = (Inr vs, h)"
| "pair_loop eig a variation_range base_weights ((i, j) # ps) vs h =
     (case getitem2 (arrays h a) i j of
        Inl e \<Rightarrow> (Inl e, h)
      | Inr original_value \<Rightarrow>
          (case factor_loop eig a i j original_value base_weights
                  [1 - variation_range, 1 + variation_range] vs h of
             (Inl e, h') \<Rightarrow> (Inl e, h')
           | (Inr vs', h') \<Rightarrow> pair_loop eig a variation_range base_weights ps vs' h'))"

definition ahp_sensitivity_analysis ::
  "eig \<Rightarrow> addr \<Rightarrow> (int \<times> int) list \<Rightarrow> real \<Rightarrow> store \<Rightarrow> (py_error + sensitivity) \<times> store" where
  "ahp_sensitivity_analysis eig comparison_matrix vary_indices variation_range h =
     (case ahp_consistency_ratio eig (arrays h comparison_matrix) of
        Inl e \<Rightarrow> (Inl e, h)
      | Inr base_result \<Rightarrow>
          (case pair_loop eig comparison_matrix variation_range (ar_weights base_result)
                  vary_indices [] h of
             (Inl e, h') \<Rightarrow> (Inl e, h')
           | (Inr vs, h') \<Rightarrow>
               (Inr \<lparr>sn_base_weights = ar_weights base_result, sn_variations = vs\<rparr>, h')))"

text \<open>\<open>frame h h'\<close>: \<open>h'\<close> extends \<open>h\<close> and every array allocated in \<open>h\<close> is as it was.\<close>

definition frame :: "store \<Rightarrow> store \<Rightarrow> bool" where
  "frame h h' \<longleftrightarrow> lim h \<le> lim h' \<and> (\<forall>b < lim h. arrays h' b = arrays h b)"

text \<open>A store holding one comparison matrix, at address 0.\<close>

definition store_two :: store where
  "store_two = \<lparr>arrays = (\<lambda>_. [])(0 := [[1, 4 / 3], [3 / 4, 1]]), lim = 1\<rparr>"


section \<open>DEA\<close>

text \<open>
  \<^verbatim>\<open>scipy.optimize.linprog\<close> is a parameter of the model. It receives the objective
  \<open>c\<close>, the constraints \<open>A_ub x \<le> b_ub\<close> and a (lower, upper) bound for every variable,
  and answers with a success flag, the solution \<open>x\<close> (read only after a success) and a
  message.
\<close>

record lp_problem =
  lp_c :: vec
  lp_A_ub :: matrix
  lp_b_ub :: vec
  lp_bounds :: "(real \<times> real option) list"

record lp_result =
  lp_success :: bool
  lp_x :: vec
  lp_message :: string

type_synonym linprog = "lp_problem \<Rightarrow> lp_result"

text \<open>What a linear program asks for: feasible points, and a feasible point of least cost.\<close>

definition lp_feasible :: "lp_problem \<Rightarrow> vec \<Rightarrow> bool" where
  "lp_feasible P x \<longleftrightarrow>
     length x = length (lp_c P) \<and>
     (\<forall>rb \<in> set (zip (lp_A_ub P) (lp_b_ub P)). sum_list (map2 (*) (fst rb) x) \<le> snd rb) \<and>
     (\<forall>bv \<in> set (zip (lp_bounds P) x).
        fst (fst bv) \<le> snd bv \<and> (case snd (fst bv) of None \<Rightarrow> True | Some u \<Rightarrow> snd bv \<le> u))"

definition lp_optimal :: "lp_problem \<Rightarrow> vec \<Rightarrow> bool" where
  "lp_optimal P x \<longleftrightarrow>
     lp_feasible P x \<and>
     (\<forall>y. lp_feasible P y \<longrightarrow> sum_list (map2 (*) (lp_c P) x) \<le> sum_list (map2 (*) (lp_c P) y))"

text \<open>
  The result dictionary of \<^verbatim>\<open>dea_efficiency\<close>. The raw LP value is stored under the key
  \<^verbatim>\<open>'phi'\<close> (output orientation) or \<^verbatim>\<open>'theta'\<close> (input orientation): \<open>dr_scale_key\<close> is
  that key and \<open>dr_scale\<close> its value. A field that holds \<^verbatim>\<open>None\<close> is \<open>None\<close>.
\<close>

record dea_result =
  dr_efficiency :: "real option"
  dr_scale_key :: string
  dr_scale :: "real option"
  dr_lambdas :: "vec option"
  dr_slack_inputs :: "vec option"
  dr_slack_outputs :: "vec option"
  dr_is_efficient :: "bool option"
  dr_peers :: "nat list option"
  dr_status :: string

text \<open>\<^verbatim>\<open>A[r, 1:] = src\<close> for a row of \<open>n\<close> entries: \<open>src\<close> is broadcast from length 1.\<close>

definition assign_row :: "nat \<Rightarrow> vec \<Rightarrow> py_error + vec" where
  "assign_row n src =
     (if length src = n then Inr src
      else if length src = 1 then Inr (replicate n (hd src))
      else Inl ValueError)"

text \<open>\<^verbatim>\<open>M.T @ v\<close> for an array \<open>M\<close> with \<open>p\<close> columns.\<close>

definition matT_vec :: "matrix \<Rightarrow> nat \<Rightarrow> vec \<Rightarrow> py_error + vec" where
  "matT_vec M p v =
     (if length v \<noteq> length M then Inl ValueError
      else Inr (map (\<lambda>i. sum_list (map2 (*) (column M i) v)) [0..<p]))"

text \<open>The tolerance the source passes to \<^verbatim>\<open>np.isclose\<close> as \<^verbatim>\<open>atol=1e-6\<close>, and the peer threshold.\<close>

definition frontier_atol :: real where
  "frontier_atol = 1 / 1000000"

definition peer_threshold :: real where
  "peer_threshold = 1 / 1000000"

text \<open>The linear program of the output-oriented branch, variables \<open>[phi, lambda_0, ...]\<close>.\<close>

definition output_problem :: "matrix \<Rightarrow> matrix \<Rightarrow> vec \<Rightarrow> vec \<Rightarrow> py_error + lp_problem" where
  "output_problem inputs outputs x_k y_k =
     (let n_dmus = length inputs; n_inputs = ncols inputs; n_outputs = ncols outputs;
          A_ub_input = map (\<lambda>i. 0 # column inputs i) [0..<n_inputs]
      in case collect (map (\<lambda>r. assign_row n_dmus (map uminus (column outputs r)))
                           [0..<n_outputs]) of
           Inl e \<Rightarrow> Inl e
         | Inr rows \<Rightarrow>
             Inr \<lparr>lp_c = - 1 # replicate n_dmus 0,
                  lp_A_ub = A_ub_input @ map2 (\<lambda>r row. y_k ! r # row) [0..<n_outputs] rows,
                  lp_b_ub = x_k @ replicate n_outputs 0,
                  lp_bounds = (1, None) # replicate n_dmus (0, None)\<rparr>)"

text \<open>The linear program of the input-oriented branch, variables \<open>[theta, lambda_0, ...]\<close>.\<close>

definition input_problem :: "matrix \<Rightarrow> matrix \<Rightarrow> vec \<Rightarrow> vec \<Rightarrow> py_error + lp_problem" where
  "input_problem inputs outputs x_k y_k =
     (let n_dmus = length inputs; n_inputs = ncols inputs; n_outputs = ncols outputs;
          A_ub_input = map (\<lambda>i. - (x_k ! i) # column inputs i) [0..<n_inputs]
      in case collect (map (\<lambda>r. assign_row n_dmus (map uminus (column outputs r)))
                           [0..<n_outputs]) of
           Inl e \<Rightarrow> Inl e
         | Inr rows \<Rightarrow>
             Inr \<lparr>lp_c = 1 # replicate n_dmus 0,
                  lp_A_ub = A_ub_input @ map (\<lambda>row. 0 # row) rows,
                  lp_b_ub = replicate n_inputs 0 @ map uminus y_k,
                  lp_bounds = (0, Some 1) # replicate n_dmus (0, None)\<rparr>)"

text \<open>The result returned when \<^verbatim>\<open>result.success\<close> is false.\<close>

definition failed_result :: "string \<Rightarrow> lp_result \<Rightarrow> dea_result" where
  "failed_result key result =
     \<lparr>dr_efficiency = None, dr_scale_key = key, dr_scale = None, dr_lambdas = None,
      dr_slack_inputs = None, dr_slack_outputs = None, dr_is_efficient = None,
      dr_peers = None, dr_status = ''failed: '' @ lp_message result\<rparr>"

text \<open>
  The two branches of \<^verbatim>\<open>dea_efficiency\<close>, one per orientation: build the program, call
  the solver, and on success read \<open>x[0]\<close> and \<open>x[1:]\<close> and derive efficiency, slacks,
  peers and the frontier flag. \<^verbatim>\<open>1.0 / phi\<close> divides NumPy floats and does not raise;
  the solver's bound keeps \<open>phi \<ge> 1\<close>.
\<close>

definition dea_output_oriented ::
  "linprog \<Rightarrow> matrix \<Rightarrow> matrix \<Rightarrow> vec \<Rightarrow> vec \<Rightarrow> py_error + dea_result" where
  "dea_output_oriented linprog inputs outputs x_k y_k =
     (case output_problem inputs outputs x_k y_k of
        Inl e \<Rightarrow> Inl e
      | Inr problem \<Rightarrow>
          (let result = linprog problem
           in if lp_success result then
                (case lp_x result of
                   [] \<Rightarrow> Inl IndexError
                 | phi # lambdas \<Rightarrow>
                     (let efficiency = 1 / phi
                      in case matT_vec inputs (ncols inputs) lambdas of
                           Inl e \<Rightarrow> Inl e
                         | Inr used \<Rightarrow>
                             (case matT_vec outputs (ncols outputs) lambdas of
                                Inl e \<Rightarrow> Inl e
                              | Inr made \<Rightarrow>
                                  Inr \<lparr>dr_efficiency = Some efficiency, dr_scale_key = ''phi'',
                                       dr_scale = Some phi, dr_lambdas = Some lambdas,
                                       dr_slack_inputs = Some (map2 (-) x_k used),
                                       dr_slack_outputs =
                                         Some (map2 (-) (map (\<lambda>y. phi * y) y_k) made),
                                       dr_is_efficient =
                                         Some (isclose efficiency 1 default_rtol frontier_atol),
                                       dr_peers =
                                         Some (filter (\<lambda>j. lambdas ! j > peer_threshold)
                                                 [0..<length lambdas]),
                                       dr_status = ''optimal''\<rparr>)))
              else Inr (failed_result ''phi'' result)))"

definition dea_input_oriented ::
  "linprog \<Rightarrow> matrix \<Rightarrow> matrix \<Rightarrow> vec \<Rightarrow> vec \<Rightarrow> py_error + dea_result" where
  "dea_input_oriented linprog inputs outputs x_k y_k =
     (case input_problem inputs outputs x_k y_k of
        Inl e \<Rightarrow> Inl e
      | Inr problem \<Rightarrow>
          (let result = linprog problem
           in if lp_success result then
                (case lp_x result of
                   [] \<Rightarrow> Inl IndexError
                 | theta # lambdas \<Rightarrow>
                     (let efficiency = theta
                      in case matT_vec inputs (ncols inputs) lambdas of
                           Inl e \<Rightarrow> Inl e
                         | Inr used \<Rightarrow>
                             (case matT_vec outputs (ncols outputs) lambdas of
                                Inl e \<Rightarrow> Inl e
                              | Inr made \<Rightarrow>
                                  Inr \<lparr>dr_efficiency = Some efficiency, dr_scale_key = ''theta'',
                                       dr_scale = Some theta, dr_lambdas = Some lambdas,
                                       dr_slack_inputs =
                                         Some (map2 (-) (map (\<lambda>x. theta * x) x_k) used),
                                       dr_slack_outputs = Some (map2 (-) made y_k),
                                       dr_is_efficient =
                                         Some (isclose efficiency 1 default_rtol frontier_atol),
                                       dr_peers =
                                         Some (filter (\<lambda>j. lambdas ! j > peer_threshold)
                                                 [0..<length lambdas]),
                                       dr_status = ''optimal''\<rparr>)))
              else Inr (failed_result ''theta'' result)))"

text \<open>
  \<^verbatim>\<open>dea_efficiency\<close>: the target rows are read first (IndexError out of range), then the
  branch for the orientation runs; every orientation other than \<^verbatim>\<open>'output'\<close> is the
  input-oriented branch.
\<close>

definition dea_efficiency ::
  "linprog \<Rightarrow> matrix \<Rightarrow> matrix \<Rightarrow> nat \<Rightarrow> string \<Rightarrow> py_error + dea_result" where
  "dea_efficiency linprog inputs outputs dmu_index orientation =
     (case list_get inputs dmu_index of
        Inl e \<Rightarrow> Inl e
      | Inr x_k \<Rightarrow>
          (case list_get outputs dmu_index of
             Inl e \<Rightarrow> Inl e
           | Inr y_k \<Rightarrow>
               if orientation = ''output''
               then dea_output_oriented linprog inputs outputs x_k y_k
               else dea_input_oriented linprog inputs outputs x_k y_k))"

text \<open>An entry of \<^verbatim>\<open>improvement_targets\<close>, for either orientation.\<close>

datatype improvement =
  OutputTarget (current_outputs: vec) (target_outputs: vec) (improvement_needed: vec)
    (improvement_percent: real)
| InputTarget (current_inputs: vec) (target_inputs: vec) (reduction_needed: vec)
    (reduction_percent: real)

text \<open>\<^verbatim>\<open>results[i][key]\<close>, used as a factor: KeyError for a key the result does not have.\<close>

definition scale_of :: "dea_result \<Rightarrow> string \<Rightarrow> py_error + real" where
  "scale_of r key =
     (if dr_scale_key r \<noteq> key then Inl KeyError
      else case dr_scale r of None \<Rightarrow> Inl TypeError | Some v \<Rightarrow> Inr v)"

definition improvement_entry ::
  "matrix \<Rightarrow> matrix \<Rightarrow> string \<Rightarrow> dea_result \<Rightarrow> nat \<Rightarrow> py_error + improvement" where
  "improvement_entry inputs outputs orientation r i =
     (if orientation = ''output'' then
        (case scale_of r ''phi'' of
           Inl e \<Rightarrow> Inl e
         | Inr phi \<Rightarrow>
             (case list_get outputs i of
                Inl e \<Rightarrow> Inl e
              | Inr row \<Rightarrow>
                  (let target_outputs = map (\<lambda>y. y * phi) row;
                       improvement = map2 (-) target_outputs row
                   in Inr (OutputTarget row target_outputs improvement ((phi - 1) * 100)))))
      else
        (case scale_of r ''theta'' of
           Inl e \<Rightarrow> Inl e
         | Inr theta \<Rightarrow>
             (case list_get inputs i of
                Inl e \<Rightarrow> Inl e
              | Inr row \<Rightarrow>
                  (let target_inputs = map (\<lambda>x. x * theta) row;
                       reduction = map2 (-) row target_inputs
                   in Inr (InputTarget row target_inputs reduction ((1 - theta) * 100))))))"

text \<open>
  The loop that fills \<^verbatim>\<open>improvement_targets\<close>. Python's \<^verbatim>\<open>not\<close> is true of \<^verbatim>\<open>None\<close> and
  of a false flag, so a DMU gets an entry unless its flag is true or its efficiency is
  \<^verbatim>\<open>None\<close>.
\<close>

fun targets_loop ::
  "matrix \<Rightarrow> matrix \<Rightarrow> string list \<Rightarrow> string \<Rightarrow> dea_result list \<Rightarrow> nat list \<Rightarrow>
     (string \<times> improvement) list \<Rightarrow> py_error + (string \<times> improvement) list" where
  "targets_loop inputs outputs dmu_names orientation results [] targets = Inr targets"
| "targets_loop inputs outputs dmu_names orientation results (i # rest) targets =
     (case list_get results i of
        Inl e \<Rightarrow> Inl e
      | Inr r \<Rightarrow>
          if dr_is_efficient r \<noteq> Some True \<and> dr_efficiency r \<noteq> None then
            (case improvement_entry inputs outputs orientation r i of
               Inl e \<Rightarrow> Inl e
             | Inr entry \<Rightarrow>
                 (case list_get dmu_names i of
                    Inl e \<Rightarrow> Inl e
                  | Inr name \<Rightarrow>
                      targets_loop inputs outputs dmu_names orientation results rest
                        (dict_set targets name entry)))
          else targets_loop inputs outputs dmu_names orientation results rest targets)"

record dea_all_result =
  da_efficiencies :: vec
  da_results :: "dea_result list"
  da_frontier_dmus :: "nat list"
  da_frontier_names :: "string list"
  da_ranking :: "nat list"
  da_ranked_names :: "string list"
  da_ranked_efficiencies :: vec
  da_improvement_targets :: "(string \<times> improvement) list"

definition dea_efficiency_all ::
  "linprog \<Rightarrow> argsort \<Rightarrow> matrix \<Rightarrow> matrix \<Rightarrow> string list option \<Rightarrow> string \<Rightarrow>
     py_error + dea_all_result" where
  "dea_efficiency_all linprog srt inputs outputs dmu_names0 orientation =
     (let n_dmus = length inputs;
          dmu_names =
            (case dmu_names0 of
               None \<Rightarrow> map (\<lambda>i. ''DMU_'' @ str_nat i) [0..<n_dmus]
             | Some names \<Rightarrow> names)
      in case collect (map (\<lambda>i. dea_efficiency linprog inputs outputs i orientation)
                           [0..<n_dmus]) of
           Inl e \<Rightarrow> Inl e
         | Inr results \<Rightarrow>
       (let efficiencies = map (\<lambda>r. case dr_efficiency r of None \<Rightarrow> 0 | Some e \<Rightarrow> e) results;
            ranking = srt (map uminus efficiencies);
            frontier_dmus =
              filter (\<lambda>i. isclose (efficiencies ! i) 1 default_rtol frontier_atol)
                [0..<length efficiencies]
        in case targets_loop inputs outputs dmu_names orientation results [0..<n_dmus] [] of
             Inl e \<Rightarrow> Inl e
           | Inr improvement_targets \<Rightarrow>
         (case collect (map (list_get dmu_names) frontier_dmus) of
             Inl e \<Rightarrow> Inl e
           | Inr frontier_names \<Rightarrow>
         (case collect (map (list_get dmu_names) ranking) of
             Inl e \<Rightarrow> Inl e
           | Inr ranked_names \<Rightarrow>
         (case collect (map (list_get efficiencies) ranking) of
             Inl e \<Rightarrow> Inl e
           | Inr ranked_efficiencies \<Rightarrow>
               Inr \<lparr>da_efficiencies = efficiencies, da_results = results,
                    da_frontier_dmus = frontier_dmus, da_frontier_names = frontier_names,
                    da_ranking = ranking, da_ranked_names = ranked_names,
                    da_ranked_efficiencies = ranked_efficiencies,
                    da_improvement_targets = improvement_targets\<rparr>)))))"

text \<open>
  Well-formed DEA data: \<open>n\<close> DMUs (at least one), \<open>p\<close> inputs and \<open>q\<close> outputs each. The
  solver's side of the contract: a solution has one entry per variable.
\<close>

definition dea_data :: "matrix \<Rightarrow> matrix \<Rightarrow> nat \<Rightarrow> nat \<Rightarrow> nat \<Rightarrow> bool" where
  "dea_data inputs outputs n p q \<longleftrightarrow> 0 < n \<and> shape inputs n p \<and> shape outputs n q"

definition linprog_sized :: "linprog \<Rightarrow> bool" where
  "linprog_sized linprog \<longleftrightarrow>
     (\<forall>P. lp_success (linprog P) \<longrightarrow> length (lp_x (linprog P)) = length (lp_c P))"

text \<open>The names in use for \<open>n\<close> DMUs.\<close>

definition names_in_use :: "string list option \<Rightarrow> nat \<Rightarrow> string list" where
  "names_in_use dmu_names0 n =
     (case dmu_names0 of
        None \<Rightarrow> map (\<lambda>i. ''DMU_'' @ str_nat i) [0..<n]
      | Some names \<Rightarrow> names)"

text \<open>
  The linear program \<^verbatim>\<open>dea_efficiency\<close> hands to the solver for DMU \<open>k\<close>, and the key its
  raw value is stored under.
\<close>

definition dea_problem :: "matrix \<Rightarrow> matrix \<Rightarrow> nat \<Rightarrow> string \<Rightarrow> py_error + lp_problem" where
  "dea_problem inputs outputs k orientation =
     (if orientation = ''output''
      then output_problem inputs outputs (inputs ! k) (outputs ! k)
      else input_problem inputs outputs (inputs ! k) (outputs ! k))"

definition scale_key :: "string \<Rightarrow> string" where
  "scale_key orientation = (if orientation = ''output'' then ''phi'' else ''theta'')"

text \<open>\<open>solver_fails\<close>: the solver reports no success on the program of DMU \<open>k\<close>.\<close>

definition solver_fails :: "linprog \<Rightarrow> matrix \<Rightarrow> matrix \<Rightarrow> nat \<Rightarrow> string \<Rightarrow> bool" where
  "solver_fails linprog inputs outputs k orientation \<longleftrightarrow>
     (case dea_problem inputs outputs k orientation of
        Inl e \<Rightarrow> False
      | Inr P \<Rightarrow> \<not> lp_success (linprog P))"

text \<open>
  What every result of \<^verbatim>\<open>dea_efficiency\<close> looks like: either all fields are \<^verbatim>\<open>None\<close>, or
  the efficiency is there and the flag is \<^verbatim>\<open>np.isclose(efficiency, 1.0, atol=1e-6)\<close>.
\<close>

definition result_form :: "string \<Rightarrow> dea_result \<Rightarrow> bool" where
  "result_form key r \<longleftrightarrow>
     dr_scale_key r = key \<and>
     (case dr_efficiency r of
        None \<Rightarrow> dr_is_efficient r = None \<and> dr_scale r = None
      | Some e \<Rightarrow>
          dr_is_efficient r = Some (isclose e 1 default_rtol frontier_atol) \<and>
          dr_scale r \<noteq> None)"

text \<open>
  Two plans with one input and one output each; the second needs 199999 units of input
  where the first needs 200000. The solver below returns the optimum of each plan's
  input-oriented program, and reports failure on every other program.
\<close>

definition plan_inputs :: matrix where
  "plan_inputs = [[200000], [199999]]"

definition plan_outputs :: matrix where
  "plan_outputs = [[1], [1]]"

definition plan_program :: "real \<Rightarrow> lp_problem" where
  "plan_program x_k =
     \<lparr>lp_c = [1, 0, 0], lp_A_ub = [[- x_k, 200000, 199999], [0, - 1, - 1]],
      lp_b_ub = [0, - 1], lp_bounds = [(0, Some 1), (0, None), (0, None)]\<rparr>"

definition linprog_plans :: linprog where
  "linprog_plans P =
     (if P = plan_program 200000
      then \<lparr>lp_success = True, lp_x = [199999 / 200000, 0, 1], lp_message = ''Optimal''\<rparr>
      else if P = plan_program 199999
      then \<lparr>lp_success = True, lp_x = [1, 0, 1], lp_message = ''Optimal''\<rparr>
      else \<lparr>lp_success = False, lp_x = [], lp_message = ''Not solved''\<rparr>)"

text \<open>
  Three plans, and a solver that solves the input-oriented programs of the second and
  the third and reports failure on every other program, the first plan's among them.
\<close>

definition trio_inputs :: matrix where
  "trio_inputs = [[200000], [199999], [400000]]"

definition trio_outputs :: matrix where
  "trio_outputs = [[1], [1], [1]]"

definition trio_program :: "real \<Rightarrow> lp_problem" where
  "trio_program x_k =
     \<lparr>lp_c = [1, 0, 0, 0], lp_A_ub = [[- x_k, 200000, 199999, 400000], [0, - 1, - 1, - 1]],
      lp_b_ub = [0, - 1], lp_bounds = [(0, Some 1), (0, None), (0, None), (0, None)]\<rparr>"

definition linprog_trio :: linprog where
  "linprog_trio P =
     (if P = trio_program 199999
      then \<lparr>lp_success = True, lp_x = [1, 0, 1, 0], lp_message = ''Optimal''\<rparr>
      else if P = trio_program 400000
      then \<lparr>lp_success = True, lp_x = [199999 / 400000, 0, 1, 0], lp_message = ''Optimal''\<rparr>
      else \<lparr>lp_success = False, lp_x = [], lp_message = ''Infeasible''\<rparr>)"


chapter \<open>Properties\<close>


section \<open>Properties of the comparison matrix\<close>

lemma shape_ones: "shape (ones m n) m n"
  by (simp add: shape_def ones_def)

lemma ncols_shape: "shape M m n \<Longrightarrow> 0 < m \<Longrightarrow> ncols M = n"
  by (cases M) (auto simp: shape_def ncols_def)

lemma np_index_nonneg: "0 \<le> i \<Longrightarrow> i < int n \<Longrightarrow> np_index n i = Some (nat i)"
  by (simp add: np_index_def)

lemma shape_update:
  assumes "shape M n n" and "a < n" and "b < n"
  shows "shape (M[a := (M ! a)[b := v]]) n n"
  using assms by (auto simp: shape_def set_update_memI dest!: set_update_subset_insert [THEN subsetD])

lemma entry_update:
  assumes "shape M n n" and "a < n" and "b < n" and "x < n" and "y < n"
  shows "M[a := (M ! a)[b := v]] ! x ! y = (if x = a \<and> y = b then v else M ! x ! y)"
  using assms by (auto simp: shape_def nth_list_update)

lemma place_pair_ok:
  assumes "shape M n n" and "0 \<le> i" and "i < int n" and "0 \<le> j" and "j < int n" and "v \<noteq> 0"
  shows "place_pair M i j v =
           Inr ((M[nat i := (M ! nat i)[nat j := v]])
                  [nat j := ((M[nat i := (M ! nat i)[nat j := v]]) ! nat j)[nat i := 1 / v]])"
proof -
  have n: "0 < n" using assms by linarith
  let ?M1 = "M[nat i := (M ! nat i)[nat j := v]]"
  have s1: "shape ?M1 n n" using assms by (intro shape_update) auto
  have "setitem2 M i j v = Inr ?M1"
    using assms n by (simp add: setitem2_def np_index_nonneg ncols_shape [OF assms(1) n] shape_def)
  moreover have "setitem2 ?M1 j i (1 / v) = Inr (?M1[nat j := (?M1 ! nat j)[nat i := 1 / v]])"
    using assms n s1 by (simp add: setitem2_def np_index_nonneg ncols_shape [OF s1 n] shape_def)
  ultimately show ?thesis using assms by (simp add: place_pair_def)
qed

text \<open>One round of the loop on a valid item: shape kept, two entries written.\<close>

lemma comparison_item_ok:
  assumes "shape M n n" and "0 \<le> i" and "i < int n" and "0 \<le> j" and "j < int n"
    and "i \<noteq> j" and "0 < v"
  shows "\<exists>M'. comparison_item M ((i, j), v) = Inr M' \<and> shape M' n n \<and>
           (\<forall>x < n. \<forall>y < n. M' ! x ! y =
              (if x = nat i \<and> y = nat j then v
               else if x = nat j \<and> y = nat i then 1 / v
               else M ! x ! y))"
proof -
  let ?a = "nat i" and ?b = "nat j"
  let ?M1 = "M[?a := (M ! ?a)[?b := v]]"
  let ?M2 = "?M1[?b := (?M1 ! ?b)[?a := 1 / v]]"
  have ab: "?a < n" "?b < n" "?a \<noteq> ?b" using assms by auto
  have s1: "shape ?M1 n n" using assms(1) ab by (intro shape_update)
  have s2: "shape ?M2 n n" by (rule shape_update [OF s1 ab(2) ab(1)])
  have pp: "place_pair M i j v = Inr ?M2"
    using assms by (intro place_pair_ok) auto
  have ci: "comparison_item M ((i, j), v) = Inr ?M2"
    using assms pp by auto
  have "\<forall>x < n. \<forall>y < n. ?M2 ! x ! y =
          (if x = ?a \<and> y = ?b then v else if x = ?b \<and> y = ?a then 1 / v else M ! x ! y)"
  proof (intro allI impI)
    fix x y assume xy: "x < n" "y < n"
    have "?M2 ! x ! y = (if x = ?b \<and> y = ?a then 1 / v else ?M1 ! x ! y)"
      by (rule entry_update [OF s1 ab(2) ab(1) xy])
    moreover have "?M1 ! x ! y = (if x = ?a \<and> y = ?b then v else M ! x ! y)"
      by (rule entry_update [OF assms(1) ab(1) ab(2) xy])
    ultimately show "?M2 ! x ! y =
          (if x = ?a \<and> y = ?b then v else if x = ?b \<and> y = ?a then 1 / v else M ! x ! y)"
      using ab(3) by auto
  qed
  with ci s2 show ?thesis by blast
qed

lemma given_Cons:
  "given (((i, j), v) # cs) x y w \<longleftrightarrow>
     (int x = i \<and> int y = j \<and> w = v) \<or> (int y = i \<and> int x = j \<and> w = 1 / v) \<or> given cs x y w"
  unfolding given_def by auto

lemma comparison_loop_entries:
  assumes "shape M n n"
    and "\<forall>c \<in> set cs. 0 \<le> fst (fst c) \<and> fst (fst c) < int n \<and>
                    0 \<le> snd (fst c) \<and> snd (fst c) < int n \<and>
                    fst (fst c) \<noteq> snd (fst c) \<and> 0 < snd c"
  shows "\<exists>M'. comparison_loop M cs = Inr M' \<and> shape M' n n \<and>
           (\<forall>x < n. \<forall>y < n.
              given cs x y (M' ! x ! y) \<or>
              (M' ! x ! y = M ! x ! y \<and> (\<forall>w. \<not> given cs x y w)))"
  using assms
proof (induction cs arbitrary: M)
  case Nil
  then show ?case by (simp add: given_def)
next
  case (Cons c cs)
  obtain i j v where c: "c = ((i, j), v)" by (metis surj_pair)
  from Cons.prems c have ok: "0 \<le> i" "i < int n" "0 \<le> j" "j < int n" "i \<noteq> j" "0 < v"
    by auto
  from comparison_item_ok [OF Cons.prems(1) ok]
  obtain M1 where M1: "comparison_item M ((i, j), v) = Inr M1" "shape M1 n n"
    and e1: "\<forall>x < n. \<forall>y < n. M1 ! x ! y =
              (if x = nat i \<and> y = nat j then v
               else if x = nat j \<and> y = nat i then 1 / v
               else M ! x ! y)"
    by blast
  from Cons.IH [OF M1(2)] Cons.prems(2)
  obtain M' where M': "comparison_loop M1 cs = Inr M'" "shape M' n n"
    and e': "\<forall>x < n. \<forall>y < n.
              given cs x y (M' ! x ! y) \<or>
              (M' ! x ! y = M1 ! x ! y \<and> (\<forall>w. \<not> given cs x y w))"
    by auto
  have run: "comparison_loop M (c # cs) = Inr M'"
    using M1 M' c by simp
  have "given (c # cs) x y (M' ! x ! y) \<or>
        (M' ! x ! y = M ! x ! y \<and> (\<forall>w. \<not> given (c # cs) x y w))"
    if xy: "x < n" "y < n" for x y
  proof -
    from e' xy consider (late) "given cs x y (M' ! x ! y)"
      | (early) "M' ! x ! y = M1 ! x ! y" "\<forall>w. \<not> given cs x y w"
      by blast
    then show ?thesis
    proof cases
      case late
      then show ?thesis by (simp add: c given_Cons)
    next
      case early
      from e1 xy have m1: "M1 ! x ! y =
              (if x = nat i \<and> y = nat j then v
               else if x = nat j \<and> y = nat i then 1 / v
               else M ! x ! y)" by blast
      show ?thesis
      proof (cases "(x = nat i \<and> y = nat j) \<or> (x = nat j \<and> y = nat i)")
        case True
        have conv: "int (nat i) = i" "int (nat j) = j" using ok by auto
        from True have "given (((i, j), v) # cs) x y (M1 ! x ! y)"
          unfolding given_Cons m1 using conv ok(5) by auto
        with early show ?thesis unfolding c by simp
      next
        case False
        have "M1 ! x ! y = M ! x ! y" unfolding m1 using False by (simp only: if_False split: if_split) blast
        moreover have "int x = i \<longleftrightarrow> x = nat i" "int y = j \<longleftrightarrow> y = nat j"
          "int y = i \<longleftrightarrow> y = nat i" "int x = j \<longleftrightarrow> x = nat j"
          using ok by auto
        then have "\<forall>w. \<not> given (((i, j), v) # cs) x y w"
          unfolding given_Cons using False early(2) by blast
        ultimately show ?thesis using early unfolding c by simp
      qed
    qed
  qed
  with run M'(2) show ?case by blast
qed

lemma ones_entry: "x < m \<Longrightarrow> y < n \<Longrightarrow> ones m n ! x ! y = 1"
  by (simp add: ones_def)

lemma given_positive:
  assumes "judgments_ok cs n" and "given cs x y w"
  shows "0 < w"
  using assms unfolding judgments_ok_def given_def by fastforce

lemma given_off_diagonal:
  assumes "judgments_ok cs n"
  shows "\<not> given cs x x w"
  using assms unfolding judgments_ok_def given_def by fastforce

lemma given_unique:
  assumes ok: "judgments_ok cs n" and c: "((i, j), v) \<in> set cs"
  shows "given cs (nat i) (nat j) w \<Longrightarrow> w = v"
    and "given cs (nat j) (nat i) w \<Longrightarrow> w = 1 / v"
proof -
  from ok c have ij: "0 \<le> i" "0 \<le> j" "0 < v"
    unfolding judgments_ok_def by fastforce+
  have dist: "distinct (map fst cs)" using ok by (simp add: judgments_ok_def)
  have same: "u = u'" if "(k, u) \<in> set cs" "(k, u') \<in> set cs" for k u u'
    using dist that by (meson eq_key_imp_eq_value)
  have flip: "u = 1 / v" if "((j, i), u) \<in> set cs" for u
    using ok c that unfolding judgments_ok_def by fastforce
  {
    assume "given cs (nat i) (nat j) w"
    then consider "((i, j), w) \<in> set cs" | u where "((j, i), u) \<in> set cs" "w = 1 / u"
      using ij by (auto simp: given_def)
    then show "w = v"
    proof cases
      case 1
      then show ?thesis using same c by blast
    next
      case 2
      then show ?thesis using flip [OF 2(1)] ij by simp
    qed
  }
  {
    assume "given cs (nat j) (nat i) w"
    then consider "((j, i), w) \<in> set cs" | u where "((i, j), u) \<in> set cs" "w = 1 / u"
      using ij by (auto simp: given_def)
    then show "w = 1 / v"
    proof cases
      case 1
      then show ?thesis using flip by blast
    next
      case 2
      then show ?thesis using same c by blast
    qed
  }
qed

text \<open>
  Claim C6, as amended. For every dictionary of judgments with strictly positive values
  over pairs (i, j) of distinct indices, both in \<open>0 \<le> i, j < n\<close>, in which a pair given
  in both orientations carries reciprocal values, \<^verbatim>\<open>create_comparison_matrix\<close> returns
  an n by n matrix whose diagonal entries are all 1, in which every supplied pair (i, j)
  stands at entry (i, j) with its reciprocal at entry (j, i), and all of whose entries
  are strictly positive.
\<close>

theorem create_comparison_matrix_reciprocal:
  assumes ok: "judgments_ok cs n"
  shows "\<exists>M. create_comparison_matrix cs n = Inr M \<and> shape M n n \<and>
           (\<forall>x < n. M ! x ! x = 1) \<and>
           (\<forall>c \<in> set cs. M ! nat (fst (fst c)) ! nat (snd (fst c)) = snd c \<and>
                          M ! nat (snd (fst c)) ! nat (fst (fst c)) = 1 / snd c) \<and>
           (\<forall>x < n. \<forall>y < n. 0 < M ! x ! y)"
proof -
  have valid: "\<forall>c \<in> set cs. 0 \<le> fst (fst c) \<and> fst (fst c) < int n \<and>
                    0 \<le> snd (fst c) \<and> snd (fst c) < int n \<and>
                    fst (fst c) \<noteq> snd (fst c) \<and> 0 < snd c"
    using ok by (simp add: judgments_ok_def)
  from comparison_loop_entries [OF shape_ones valid]
  obtain M where run: "comparison_loop (ones n n) cs = Inr M" and sh: "shape M n n"
    and ent: "\<forall>x < n. \<forall>y < n.
              given cs x y (M ! x ! y) \<or>
              (M ! x ! y = ones n n ! x ! y \<and> (\<forall>w. \<not> given cs x y w))"
    by blast
  have diag: "M ! x ! x = 1" if "x < n" for x
    using ent that given_off_diagonal [OF ok] ones_entry by metis
  have pos: "0 < M ! x ! y" if "x < n" "y < n" for x y
  proof -
    from ent that consider "given cs x y (M ! x ! y)" | "M ! x ! y = ones n n ! x ! y"
      by blast
    then show ?thesis
    proof cases
      case 1
      then show ?thesis by (rule given_positive [OF ok])
    next
      case 2
      then show ?thesis using that by (simp add: ones_entry)
    qed
  qed
  have placed: "M ! nat (fst (fst c)) ! nat (snd (fst c)) = snd c \<and>
                M ! nat (snd (fst c)) ! nat (fst (fst c)) = 1 / snd c"
    if cin: "c \<in> set cs" for c
  proof -
    obtain i j v where c: "c = ((i, j), v)" by (metis surj_pair)
    from valid cin c have ij: "0 \<le> i" "i < int n" "0 \<le> j" "j < int n" by auto
    then have lt: "nat i < n" "nat j < n" by auto
    have mem: "((i, j), v) \<in> set cs" using cin c by simp
    have g1: "given cs (nat i) (nat j) v" using mem ij by (auto simp: given_def)
    have g2: "given cs (nat j) (nat i) (1 / v)" using mem ij by (auto simp: given_def)
    from ent lt g1 have "given cs (nat i) (nat j) (M ! nat i ! nat j)" by blast
    then have a: "M ! nat i ! nat j = v" by (rule given_unique(1) [OF ok mem])
    from ent lt g2 have "given cs (nat j) (nat i) (M ! nat j ! nat i)" by blast
    then have b: "M ! nat j ! nat i = 1 / v" by (rule given_unique(2) [OF ok mem])
    from a b show ?thesis by (simp add: c)
  qed
  from run sh diag pos placed show ?thesis
    unfolding create_comparison_matrix_def by blast
qed

text \<open>The judgments of the repository's own test, on three criteria.\<close>

theorem create_comparison_matrix_reciprocal_witness:
  "judgments_ok [((0, 1), 3), ((0, 2), 5), ((1, 2), 2)] 3 \<and>
   create_comparison_matrix [((0, 1), 3), ((0, 2), 5), ((1, 2), 2)] 3 =
     Inr [[1, 3, 5], [1 / 3, 1, 2], [1 / 5, 1 / 2, 1]]"
proof -
  have ok: "judgments_ok [((0, 1), 3), ((0, 2), 5), ((1, 2), 2)] 3"
    by code_simp
  have run: "create_comparison_matrix [((0, 1), 3), ((0, 2), 5), ((1, 2), 2)] 3 =
     Inr [[1, 3, 5], [1 / 3, 1, 2], [1 / 5, 1 / 2, 1]]"
    by code_simp
  from create_comparison_matrix_reciprocal [OF ok] ok run show ?thesis by simp
qed

text \<open>
  Claim C6 as it is stated fails. When both (0, 1) and (1, 0) are supplied with values
  that are not reciprocal, the later item overwrites both entries, so the supplied value
  2 is not at entry (0, 1); and an index that is not below \<open>n\<close> raises IndexError
  instead of returning a matrix.
\<close>

theorem create_comparison_matrix_overwrites:
  "create_comparison_matrix [((0, 1), 2), ((1, 0), 3)] 2 = Inr [[1, 1 / 3], [3, 1]] \<and>
   ([[1, 1 / 3], [3, 1]] :: matrix) ! 0 ! 1 \<noteq> 2 \<and>
   create_comparison_matrix [((0, 5), 2)] 3 = Inl IndexError"
  by code_simp


section \<open>Properties of the TOPSIS engine\<close>

lemma length_col_norms: "length (col_norms M) = ncols M"
  by (simp add: col_norms_def)

lemma length_zero_to_one: "length (zero_to_one v) = length v"
  by (simp add: zero_to_one_def)

lemma col_norms_nth: "j < ncols M \<Longrightarrow> col_norms M ! j = sqrt (sum_list (map (\<lambda>x. x ^ 2) (column M j)))"
  by (simp add: col_norms_def)

lemma sum_squares_nonneg: "0 \<le> sum_list (map (\<lambda>x. x ^ 2) (xs :: real list))"
  by (induction xs) auto

lemma sum_squares_zero: "sum_list (map (\<lambda>x. x ^ 2) (xs :: real list)) = 0 \<longleftrightarrow> (\<forall>x \<in> set xs. x = 0)"
proof (induction xs)
  case Nil
  then show ?case by simp
next
  case (Cons a xs)
  have "a ^ 2 + sum_list (map (\<lambda>x. x ^ 2) xs) = 0 \<longleftrightarrow> a ^ 2 = 0 \<and> sum_list (map (\<lambda>x. x ^ 2) xs) = 0"
    using sum_squares_nonneg [of xs] zero_le_power2 [of a] by linarith
  with Cons show ?case by simp
qed

lemma collect_all_ok:
  assumes "\<forall>x \<in> set xs. f x = Inr (g x)"
  shows "collect (map f xs) = Inr (map g xs)"
  using assms by (induction xs) auto

text \<open>The divisors that come out of \<^verbatim>\<open>np.where\<close> hold no zero, so the division returns.\<close>

lemma zero_to_one_nonzero: "d \<in> set (zero_to_one v) \<Longrightarrow> d \<noteq> 0"
  by (auto simp: zero_to_one_def)

lemma collect_np_divide:
  assumes "\<forall>d \<in> set v. d \<noteq> 0"
  shows "collect (map2 np_divide r v) = Inr (map2 (/) r v)"
  using assms
proof (induction r arbitrary: v)
  case Nil
  then show ?case by simp
next
  case (Cons x r)
  then show ?case by (cases v) (simp_all add: np_divide_def)
qed

lemma divide_rows_value:
  assumes "\<forall>d \<in> set v. d \<noteq> 0"
  shows "divide_rows M v = Inr (map (\<lambda>r. map2 (/) r v) M)"
  unfolding divide_rows_def
  by (rule collect_all_ok) (simp add: collect_np_divide [OF assms])

lemma normalize_matrix_value:
  "normalize_matrix M = Inr (map (\<lambda>r. map2 (/) r (zero_to_one (col_norms M))) M)"
  unfolding normalize_matrix_def Let_def
  by (rule divide_rows_value) (simp add: zero_to_one_nonzero)

text \<open>A division that meets a zero divisor does not return: this is what the substitution prevents.\<close>

lemma collect_np_divide_zero:
  assumes "j < length r" and "j < length v" and "v ! j = 0"
  shows "collect (map2 np_divide r v) = Inl NonFinite"
  using assms
proof (induction r arbitrary: v j)
  case Nil
  then show ?case by simp
next
  case (Cons x r)
  then obtain d v' where v: "v = d # v'" by (cases v) auto
  show ?case
  proof (cases j)
    case 0
    then show ?thesis using Cons.prems v by (simp add: np_divide_def)
  next
    case (Suc j')
    then have "collect (map2 np_divide r v') = Inl NonFinite"
      using Cons.prems v by (intro Cons.IH [of j']) auto
    then show ?thesis using v by (simp add: np_divide_def)
  qed
qed

lemma divide_rows_zero:
  assumes "shape M m n" and "0 < m" and "j < n" and "j < length v" and "v ! j = 0"
  shows "divide_rows M v = Inl NonFinite"
proof -
  from assms(1,2) obtain r M' where M: "M = r # M'" and r: "length r = n"
    by (cases M) (auto simp: shape_def)
  have "collect (map2 np_divide r v) = Inl NonFinite"
    by (rule collect_np_divide_zero [of j]) (use r assms in auto)
  then show ?thesis by (simp add: divide_rows_def M)
qed

text \<open>
  Claim C8, that \<^verbatim>\<open>normalize_matrix\<close> returns the same matrix after one column is
  multiplied by any \<open>k > 0\<close>, compares arrays of 64-bit floats for equality. The two
  arrays agree up to rounding only, and not at all once a square overflows: with
  \<open>k = 1e200\<close> the column (3, 4) is normalized to (0, 0), since its norm is inf, in place
  of (0.6, 0.8). Rounding and overflow are outside this model of real quotients, so
  the claim is not stated here.
\<close>

text \<open>Entry (i, j) of the normalized matrix, and its shape.\<close>

lemma normalize_matrix_entry:
  assumes "normalize_matrix M = Inr N" and "shape M m n" and "i < m" and "j < n"
  shows "N ! i ! j = M ! i ! j / (if col_norms M ! j = 0 then 1 else col_norms M ! j)"
proof -
  have m: "0 < m" using assms by simp
  have nc: "ncols M = n" by (rule ncols_shape [OF assms(2) m])
  have len: "length (M ! i) = n" using assms by (simp add: shape_def)
  have i: "i < length M" using assms by (simp add: shape_def)
  have N: "N = map (\<lambda>r. map2 (/) r (zero_to_one (col_norms M))) M"
    using assms(1) by (simp add: normalize_matrix_value)
  show ?thesis
    using assms i len nc
    by (simp add: N zero_to_one_def length_col_norms)
qed

lemma shape_normalize_matrix:
  assumes "normalize_matrix M = Inr N" and "shape M m n"
  shows "shape N m n"
proof -
  have N: "N = map (\<lambda>r. map2 (/) r (zero_to_one (col_norms M))) M"
    using assms(1) by (simp add: normalize_matrix_value)
  show ?thesis
  proof (cases "m = 0")
    case True
    then show ?thesis using assms by (simp add: shape_def N)
  next
    case False
    then have nc: "ncols M = n" using ncols_shape [OF assms(2)] by simp
    show ?thesis
      using assms nc
      by (auto simp: shape_def N length_zero_to_one length_col_norms)
  qed
qed

lemma closeness_scores_same_length:
  assumes "length s_plus = length s_minus"
  shows "closeness_scores s_plus s_minus =
           Inr (map2 (/) s_minus (zero_to_one (map2 (+) s_plus s_minus)))"
proof -
  have "collect (map2 np_divide s_minus (zero_to_one (map2 (+) s_plus s_minus))) =
          Inr (map2 (/) s_minus (zero_to_one (map2 (+) s_plus s_minus)))"
    by (rule collect_np_divide) (simp add: zero_to_one_nonzero)
  then show ?thesis
    using assms by (simp add: closeness_scores_def broadcast_vec_def length_zero_to_one)
qed

lemma closeness_scores_entry:
  assumes "length s_plus = length s_minus" and "i < length s_minus"
  shows "map2 (/) s_minus (zero_to_one (map2 (+) s_plus s_minus)) ! i =
           s_minus ! i / (if s_plus ! i + s_minus ! i = 0 then 1 else s_plus ! i + s_minus ! i)"
  using assms by (simp add: zero_to_one_def)

text \<open>
  Claim C7. In TOPSIS, a decision-matrix column whose Euclidean norm is 0 is normalized
  with a substituted divisor of 1, so the normalized column remains all zeros, and an
  alternative whose closeness denominator \<open>S+ + S-\<close> equals 0 has the denominator
  substituted by 1; neither degeneracy raises an error. For the column: the divisor that
  \<^verbatim>\<open>normalize_matrix\<close> divides column \<open>j\<close> by is 1, the function returns a matrix, and
  column \<open>j\<close> of it is the column of the input over 1, all zeros; dividing by the norms
  as they are would have met the divisor 0 and given nan. For the closeness scores: the
  function returns its scores, and where \<open>S+ + S-\<close> is 0 the divisor is 1 and the score is
  \<open>S-\<close> over 1; dividing by the denominators as they are would have given nan or inf.
\<close>

theorem topsis_zero_denominators:
  assumes sh: "shape M m n" and m: "0 < m" and j: "j < n" and zero: "col_norms M ! j = 0"
    and len: "length s_plus = length s_minus"
  shows "zero_to_one (col_norms M) ! j = 1 \<and>
         divide_rows M (col_norms M) = Inl NonFinite \<and>
         (\<exists>N. normalize_matrix M = Inr N \<and> shape N m n \<and>
              column N j = map (\<lambda>x. x / 1) (column M j) \<and>
              column N j = replicate m 0) \<and>
         (\<exists>c. closeness_scores s_plus s_minus = Inr c \<and> length c = length s_minus \<and>
              (\<forall>i < length s_minus.
                  s_plus ! i + s_minus ! i = 0 \<longrightarrow>
                    zero_to_one (map2 (+) s_plus s_minus) ! i = 1 \<and>
                    c ! i = s_minus ! i / 1 \<and>
                    collect (map2 np_divide s_minus (map2 (+) s_plus s_minus)) = Inl NonFinite))"
proof -
  have lm: "length M = m" using sh by (simp add: shape_def)
  have nc: "ncols M = n" by (rule ncols_shape [OF sh m])
  have c0: "zero_to_one (col_norms M) ! j = 1"
    using zero j nc by (simp add: zero_to_one_def length_col_norms)
  have c0': "divide_rows M (col_norms M) = Inl NonFinite"
    by (rule divide_rows_zero [OF sh m j _ zero]) (simp add: length_col_norms nc j)
  define N where "N = map (\<lambda>r. map2 (/) r (zero_to_one (col_norms M))) M"
  have run: "normalize_matrix M = Inr N" unfolding N_def by (rule normalize_matrix_value)
  have shN: "shape N m n" by (rule shape_normalize_matrix [OF run sh])
  have "sum_list (map (\<lambda>x. x ^ 2) (column M j)) = 0"
    using zero j nc by (simp add: col_norms_nth)
  then have allz: "\<forall>x \<in> set (column M j). x = 0" by (simp only: sum_squares_zero)
  have ent: "N ! i ! j = M ! i ! j / 1" if "i < m" for i
    using normalize_matrix_entry [OF run sh that j] zero by simp
  have lenn: "length N = m" using shN by (simp add: shape_def)
  have c1: "column N j = map (\<lambda>x. x / 1) (column M j)"
    by (rule nth_equalityI) (use ent lm lenn in \<open>auto simp: column_def\<close>)
  have "column M j = replicate m 0"
    by (rule nth_equalityI) (use allz lm in \<open>auto simp: column_def\<close>)
  with c1 have c2: "column N j = replicate m 0" by simp
  have c3: "\<exists>c. closeness_scores s_plus s_minus = Inr c \<and> length c = length s_minus \<and>
              (\<forall>i < length s_minus.
                  s_plus ! i + s_minus ! i = 0 \<longrightarrow>
                    zero_to_one (map2 (+) s_plus s_minus) ! i = 1 \<and>
                    c ! i = s_minus ! i / 1 \<and>
                    collect (map2 np_divide s_minus (map2 (+) s_plus s_minus)) = Inl NonFinite)"
  proof (intro exI conjI allI impI)
    show "closeness_scores s_plus s_minus =
            Inr (map2 (/) s_minus (zero_to_one (map2 (+) s_plus s_minus)))"
      by (rule closeness_scores_same_length [OF len])
    show "length (map2 (/) s_minus (zero_to_one (map2 (+) s_plus s_minus))) = length s_minus"
      using len by (simp add: length_zero_to_one)
  next
    fix i assume i: "i < length s_minus" and z: "s_plus ! i + s_minus ! i = 0"
    show "zero_to_one (map2 (+) s_plus s_minus) ! i = 1"
      using i z len by (simp add: zero_to_one_def)
    show "map2 (/) s_minus (zero_to_one (map2 (+) s_plus s_minus)) ! i = s_minus ! i / 1"
      using closeness_scores_entry [OF len i] z by simp
    show "collect (map2 np_divide s_minus (map2 (+) s_plus s_minus)) = Inl NonFinite"
      by (rule collect_np_divide_zero [of i]) (use i z len in auto)
  qed
  from c0 c0' run shN c1 c2 c3 show ?thesis by blast
qed

text \<open>
  A decision matrix whose second column is zero, and separations in which the first
  alternative is at distance 0 from both ideal points.
\<close>

lemma sqrt_25: "sqrt 25 = 5"
  using real_sqrt_abs [of 5] by simp

lemma normalize_3_4: "normalize_matrix [[3, 0], [4, 0]] = Inr [[3 / 5, 0], [4 / 5, 0]]"
  by (simp add: normalize_matrix_value col_norms_def ncols_def column_def zero_to_one_def sqrt_25)

theorem topsis_zero_denominators_witness:
  "shape [[3, 0], [4, 0]] 2 2 \<and> col_norms [[3, 0], [4, 0]] ! 1 = 0 \<and>
   zero_to_one (col_norms [[3, 0], [4, 0]]) = [5, 1] \<and>
   divide_rows [[3, 0], [4, 0]] (col_norms [[3, 0], [4, 0]]) = Inl NonFinite \<and>
   normalize_matrix [[3, 0], [4, 0]] = Inr [[3 / 5, 0], [4 / 5, 0]] \<and>
   zero_to_one (map2 (+) [0, 1] [0, 1]) = [1, 2] \<and>
   collect (map2 np_divide [0, 1] (map2 (+) [0, 1] [0, 1])) = Inl NonFinite \<and>
   closeness_scores [0, 1] [0, 1] = Inr [0, 1 / 2]"
proof -
  have sh: "shape [[3, 0], [4, 0]] 2 2" by (simp add: shape_def)
  have z: "col_norms [[3, 0], [4, 0]] ! 1 = 0"
    by (simp add: col_norms_def ncols_def column_def)
  have d: "zero_to_one (col_norms [[3, 0], [4, 0]]) = [5, 1]"
    by (simp add: col_norms_def ncols_def column_def zero_to_one_def sqrt_25)
  have d': "zero_to_one (map2 (+) [0, 1] [0, 1]) = [1, 2]"
    by (simp add: zero_to_one_def)
  have cl: "closeness_scores [0, 1] [0, 1] = Inr [0, 1 / 2]"
    by code_simp
  have "(0::nat) < 2" and "(1::nat) < 2" and "length [0, 1 :: real] = length [0, 1 :: real]"
    by simp_all
  note main = topsis_zero_denominators [OF sh this(1,2) z this(3)]
  from main have u: "divide_rows [[3, 0], [4, 0]] (col_norms [[3, 0], [4, 0]]) = Inl NonFinite"
    by (rule conjunct2 [THEN conjunct1])
  from main have "\<forall>i < length [0, 1 :: real].
       [0, 1 :: real] ! i + [0, 1] ! i = 0 \<longrightarrow>
         collect (map2 np_divide [0, 1] (map2 (+) [0, 1] [0, 1])) = Inl NonFinite"
    by blast
  then have u': "collect (map2 np_divide [0, 1] (map2 (+) [0, 1] [0, 1])) = Inl NonFinite"
    by (auto dest: spec [of _ 0])
  from sh z d u normalize_3_4 d' u' cl show ?thesis by blast
qed

lemma np_max_Max: "np_max xs = Inr (Max (set xs))" if "xs \<noteq> []"
proof (cases xs)
  case Nil
  then show ?thesis using that by simp
next
  case (Cons a list)
  have "Max (set (a # list)) = fold max list a" by (rule Max.set_eq_fold)
  then show ?thesis using Cons by simp
qed

lemma np_min_Min: "np_min xs = Inr (Min (set xs))" if "xs \<noteq> []"
proof (cases xs)
  case Nil
  then show ?thesis using that by simp
next
  case (Cons a list)
  have "Min (set (a # list)) = fold min list a" by (rule Min.set_eq_fold)
  then show ?thesis using Cons by simp
qed

lemma ideal_entry_ok:
  assumes "W \<noteq> []" and "j < length criteria_types"
  shows "ideal_entry W criteria_types j =
           Inr (if lower (criteria_types ! j) = ''benefit''
                then (Max (set (column W j)), Min (set (column W j)))
                else (Min (set (column W j)), Max (set (column W j))))"
proof -
  have ne: "column W j \<noteq> []" using assms(1) by (simp add: column_def)
  show ?thesis
    using assms(2) by (simp add: ideal_entry_def list_get_def np_max_Max [OF ne] np_min_Min [OF ne])
qed

lemma ideal_solutions_value:
  assumes sh: "shape W m n" and m: "0 < m" and len: "n \<le> length criteria_types"
  shows "ideal_solutions W criteria_types =
           Inr (map (\<lambda>j. if lower (criteria_types ! j) = ''benefit''
                         then Max (set (column W j)) else Min (set (column W j))) [0..<n],
                map (\<lambda>j. if lower (criteria_types ! j) = ''benefit''
                         then Min (set (column W j)) else Max (set (column W j))) [0..<n])"
proof -
  let ?g = "\<lambda>j. if lower (criteria_types ! j) = ''benefit''
                then (Max (set (column W j)), Min (set (column W j)))
                else (Min (set (column W j)), Max (set (column W j)))"
  have ne: "W \<noteq> []" using sh m by (auto simp: shape_def)
  have nc: "ncols W = n" by (rule ncols_shape [OF sh m])
  have "\<forall>j \<in> set [0..<n]. ideal_entry W criteria_types j = Inr (?g j)"
    using ideal_entry_ok [OF ne] len by auto
  then have "collect (map (ideal_entry W criteria_types) [0..<n]) = Inr (map ?g [0..<n])"
    by (rule collect_all_ok)
  then show ?thesis
    by (simp add: ideal_solutions_def nc comp_def if_distrib [of fst] if_distrib [of snd])
qed



lemma argsort_stable_spec: "argsort_spec argsort_stable"
  unfolding argsort_spec_def argsort_stable_def
  by (simp add: atLeast_upt [symmetric] del: atLeast_upt)

text \<open>
  The sorting network \<open>argsort_simd\<close> meets the promise as well.
\<close>

lemma upt4: "[0..<4] = [0, 1, 2, 3]"
  by code_simp

text \<open>The order of the keys, with the padding above every float.\<close>

lemma key_le_simps [simp]:
  "key_le k k" "key_le (Some x) (Some y) \<longleftrightarrow> x \<le> y" "key_le k None" "\<not> key_le None (Some y)"
  by (simp_all add: key_le_def split: option.splits)

lemma key_le_total: "key_le a b \<or> key_le b a"
  by (cases a; cases b) auto

lemma key_le_antisym: "key_le a b \<Longrightarrow> key_le b a \<Longrightarrow> a = b"
  by (cases a; cases b) auto

lemma key_le_trans: "key_le a b \<Longrightarrow> key_le b c \<Longrightarrow> key_le a c"
  by (cases a; cases b; cases c) auto

text \<open>The two kinds of round, on four lanes.\<close>

lemma cm1:
  "cmp_merge [p0, p1, p2, p3] [1, 0, 3, 2] [False, True, False, True] =
     [if key_le (fst p1) (fst p0) \<and> fst p1 \<noteq> fst p0 then p1 else p0,
      if key_le (fst p0) (fst p1) then p1 else p0,
      if key_le (fst p3) (fst p2) \<and> fst p3 \<noteq> fst p2 then p3 else p2,
      if key_le (fst p2) (fst p3) then p3 else p2]"
  by (cases p0; cases p1; cases p2; cases p3) (auto simp add: cmp_merge_def upt4 Let_def)

lemma cm2:
  "cmp_merge [p0, p1, p2, p3] [3, 2, 1, 0] [False, False, True, True] =
     [if key_le (fst p3) (fst p0) \<and> fst p3 \<noteq> fst p0 then p3 else p0,
      if key_le (fst p2) (fst p1) \<and> fst p2 \<noteq> fst p1 then p2 else p1,
      if key_le (fst p1) (fst p2) then p2 else p1,
      if key_le (fst p0) (fst p3) then p3 else p0]"
  by (cases p0; cases p1; cases p2; cases p3) (auto simp add: cmp_merge_def upt4 Let_def)

text \<open>One compare-exchange of two lanes: they are swapped or left, and come out in order.\<close>

lemma exchange:
  fixes p q :: lane
  assumes "x = (if key_le (fst q) (fst p) \<and> fst q \<noteq> fst p then q else p)"
    and "y = (if key_le (fst p) (fst q) then q else p)"
  shows "(x = p \<and> y = q \<or> x = q \<and> y = p) \<and> key_le (fst x) (fst y)"
  using key_le_total [of "fst p" "fst q"] key_le_antisym [of "fst p" "fst q"] assms
  by auto

text \<open>
  The three rounds exchange lanes pairwise and leave the keys in ascending order.
\<close>

lemma network_sorts:
  fixes p0 p1 p2 p3 :: lane
  shows "\<exists>a0 a1 a2 a3 b0 b1 b2 b3 c0 c1 c2 c3.
     cmp_merge (cmp_merge (cmp_merge [p0, p1, p2, p3]
         [1, 0, 3, 2] [False, True, False, True])
         [3, 2, 1, 0] [False, False, True, True])
         [1, 0, 3, 2] [False, True, False, True] = [c0, c1, c2, c3] \<and>
     (a0 = p0 \<and> a1 = p1 \<or> a0 = p1 \<and> a1 = p0) \<and>
     (a2 = p2 \<and> a3 = p3 \<or> a2 = p3 \<and> a3 = p2) \<and>
     (b0 = a0 \<and> b3 = a3 \<or> b0 = a3 \<and> b3 = a0) \<and>
     (b1 = a1 \<and> b2 = a2 \<or> b1 = a2 \<and> b2 = a1) \<and>
     (c0 = b0 \<and> c1 = b1 \<or> c0 = b1 \<and> c1 = b0) \<and>
     (c2 = b2 \<and> c3 = b3 \<or> c2 = b3 \<and> c3 = b2) \<and>
     key_le (fst c0) (fst c1) \<and> key_le (fst c1) (fst c2) \<and> key_le (fst c2) (fst c3)"
proof -
  define a0 where "a0 = (if key_le (fst p1) (fst p0) \<and> fst p1 \<noteq> fst p0 then p1 else p0)"
  define a1 where "a1 = (if key_le (fst p0) (fst p1) then p1 else p0)"
  define a2 where "a2 = (if key_le (fst p3) (fst p2) \<and> fst p3 \<noteq> fst p2 then p3 else p2)"
  define a3 where "a3 = (if key_le (fst p2) (fst p3) then p3 else p2)"
  define b0 where "b0 = (if key_le (fst a3) (fst a0) \<and> fst a3 \<noteq> fst a0 then a3 else a0)"
  define b1 where "b1 = (if key_le (fst a2) (fst a1) \<and> fst a2 \<noteq> fst a1 then a2 else a1)"
  define b2 where "b2 = (if key_le (fst a1) (fst a2) then a2 else a1)"
  define b3 where "b3 = (if key_le (fst a0) (fst a3) then a3 else a0)"
  define c0 where "c0 = (if key_le (fst b1) (fst b0) \<and> fst b1 \<noteq> fst b0 then b1 else b0)"
  define c1 where "c1 = (if key_le (fst b0) (fst b1) then b1 else b0)"
  define c2 where "c2 = (if key_le (fst b3) (fst b2) \<and> fst b3 \<noteq> fst b2 then b3 else b2)"
  define c3 where "c3 = (if key_le (fst b2) (fst b3) then b3 else b2)"
  have run: "cmp_merge (cmp_merge (cmp_merge [p0, p1, p2, p3]
         [1, 0, 3, 2] [False, True, False, True])
         [3, 2, 1, 0] [False, False, True, True])
         [1, 0, 3, 2] [False, True, False, True] = [c0, c1, c2, c3]"
    unfolding cm1 cm2 a0_def [symmetric] a1_def [symmetric] a2_def [symmetric] a3_def [symmetric]
      b0_def [symmetric] b1_def [symmetric] b2_def [symmetric] b3_def [symmetric]
      c0_def [symmetric] c1_def [symmetric] c2_def [symmetric] c3_def [symmetric] ..
  note A01 = exchange [OF a0_def a1_def] and A23 = exchange [OF a2_def a3_def]
    and B03 = exchange [OF b0_def b3_def] and B12 = exchange [OF b1_def b2_def]
    and C01 = exchange [OF c0_def c1_def] and C23 = exchange [OF c2_def c3_def]
  have lo: "key_le (fst b0) (fst a0)" "key_le (fst b1) (fst a2)"
    and hi: "key_le (fst a1) (fst b2)" "key_le (fst a3) (fst b3)"
    using B03 B12 by auto
  have x02: "key_le (fst b0) (fst b2)"
    using key_le_trans [OF lo(1) key_le_trans [OF conjunct2 [OF A01] hi(1)]] .
  have x13: "key_le (fst b1) (fst b3)"
    using key_le_trans [OF lo(2) key_le_trans [OF conjunct2 [OF A23] hi(2)]] .
  have mid: "key_le (fst c1) (fst c2)"
    using C01 C23 B03 B12 x02 x13 by auto
  from run A01 A23 B03 B12 C01 C23 mid show ?thesis by blast
qed


text \<open>
  So the network meets NumPy's promise on every array that fits the register: the
  indices it returns are a permutation that sorts the array.
\<close>

lemma upto_sets:
  "{0..<4::nat} = {0, 1, 2, 3}" "{0..<3::nat} = {0, 1, 2}" "{0..<2::nat} = {0, 1}"
  by auto

lemma argsort_simd_lanes:
  assumes "length xs \<le> 4"
    and "map2 (\<lambda>x i. (Some x, i)) xs [0..<length xs] @ replicate (4 - length xs) (None, 0) = L"
    and "cmp_merge (cmp_merge (cmp_merge L
           [1, 0, 3, 2] [False, True, False, True])
           [3, 2, 1, 0] [False, False, True, True])
           [1, 0, 3, 2] [False, True, False, True] = C"
  shows "argsort_simd xs = map snd (take (length xs) C)"
  unfolding argsort_simd_def Let_def if_P [OF assms(1)] assms(2) assms(3) ..


lemma lanes3:
  "map2 (\<lambda>x i. (Some x, i)) [a, b, c] [0..<length [a, b, c]] @
     replicate (4 - length [a, b, c]) (None, 0) =
   [(Some a, 0), (Some b, 1), (Some c, 2), (None, 0)]"
  by (simp add: upt_rec)

lemma lanes2:
  "map2 (\<lambda>x i. (Some x, i)) [a, b] [0..<length [a, b]] @
     replicate (4 - length [a, b]) (None, 0) =
   [(Some a, 0), (Some b, 1), (None, 0), (None, 0)]"
  by (simp add: upt_rec numeral_2_eq_2)

lemma simd2:
  fixes a b :: real
  shows "distinct (argsort_simd [a, b]) \<and>
         set (argsort_simd [a, b]) = {0..<length [a, b]} \<and>
         sorted (map (\<lambda>i. [a, b] ! i) (argsort_simd [a, b]))"
proof -
  have l: "length [a, b] \<le> 4" by simp
  have r: "argsort_simd [a, b] = (if b \<le> a \<and> b \<noteq> a then [1, 0] else [0, 1])"
    unfolding argsort_simd_def Let_def if_P [OF l] lanes2 cm1 cm2
    by (simp add: numeral_2_eq_2)
  show ?thesis unfolding r by (auto simp: upto_sets)
qed

lemma simd3:
  fixes a b c :: real
  shows "distinct (argsort_simd [a, b, c]) \<and>
         set (argsort_simd [a, b, c]) = {0..<length [a, b, c]} \<and>
         sorted (map (\<lambda>i. [a, b, c] ! i) (argsort_simd [a, b, c]))"
proof -
  have l: "length [a, b, c] \<le> 4" by simp
  show ?thesis
    unfolding argsort_simd_def Let_def if_P [OF l] lanes3 cm1 cm2
    by (auto simp: upto_sets numeral_3_eq_3)
qed


lemma pair_swap:
  assumes "x0 = p0 \<and> x1 = p1 \<or> x0 = p1 \<and> x1 = p0"
    and "x2 = p2 \<and> x3 = p3 \<or> x2 = p3 \<and> x3 = p2"
  shows "set [x0, x1, x2, x3] = set [p0, p1, p2, p3]"
    and "distinct [x0, x1, x2, x3] \<longleftrightarrow> distinct [p0, p1, p2, p3]"
  using assms by auto

lemma reorder4:
  "set [x0, x1, x2, x3] = set [x0, x3, x1, x2]"
  "distinct [x0, x1, x2, x3] \<longleftrightarrow> distinct [x0, x3, x1, x2]"
  by auto

lemma simd4:
  fixes a b c d :: real
  shows "distinct (argsort_simd [a, b, c, d]) \<and>
         set (argsort_simd [a, b, c, d]) = {0..<length [a, b, c, d]} \<and>
         sorted (map (\<lambda>i. [a, b, c, d] ! i) (argsort_simd [a, b, c, d]))"
proof -
  define P :: "lane list" where "P = [(Some a, 0), (Some b, 1), (Some c, 2), (Some d, 3)]"
  from network_sorts [of "(Some a, 0)" "(Some b, 1)" "(Some c, 2)" "(Some d, 3)"]
  obtain a0 a1 a2 a3 b0 b1 b2 b3 c0 c1 c2 c3 :: lane where
    run: "cmp_merge (cmp_merge (cmp_merge [(Some a, 0), (Some b, 1), (Some c, 2), (Some d, 3)]
         [1, 0, 3, 2] [False, True, False, True])
         [3, 2, 1, 0] [False, False, True, True])
         [1, 0, 3, 2] [False, True, False, True] = [c0, c1, c2, c3]"
    and sw1: "a0 = (Some a, 0) \<and> a1 = (Some b, 1) \<or> a0 = (Some b, 1) \<and> a1 = (Some a, 0)"
    and sw2: "a2 = (Some c, 2) \<and> a3 = (Some d, 3) \<or> a2 = (Some d, 3) \<and> a3 = (Some c, 2)"
    and sw3: "b0 = a0 \<and> b3 = a3 \<or> b0 = a3 \<and> b3 = a0"
    and sw4: "b1 = a1 \<and> b2 = a2 \<or> b1 = a2 \<and> b2 = a1"
    and sw5: "c0 = b0 \<and> c1 = b1 \<or> c0 = b1 \<and> c1 = b0"
    and sw6: "c2 = b2 \<and> c3 = b3 \<or> c2 = b3 \<and> c3 = b2"
    and so: "key_le (fst c0) (fst c1)" "key_le (fst c1) (fst c2)" "key_le (fst c2) (fst c3)"
    by (elim exE conjE) (rule that)
  have "argsort_simd [a, b, c, d] = map snd (take (length [a, b, c, d]) [c0, c1, c2, c3])"
    by (rule argsort_simd_lanes [OF _ _ run]) (simp_all add: upt4)
  then have r: "argsort_simd [a, b, c, d] = map snd [c0, c1, c2, c3]"
    by simp
  have dP: "distinct P" by (simp add: P_def)
  have sA: "set [a0, a1, a2, a3] = set P"
    unfolding P_def by (rule pair_swap(1) [OF sw1 sw2])
  have dA: "distinct [a0, a1, a2, a3]"
    using pair_swap(2) [OF sw1 sw2] dP by (simp only: P_def)
  have sB: "set [b0, b1, b2, b3] = set P"
    using pair_swap(1) [OF sw3 sw4] sA by (simp only: reorder4(1) [symmetric])
  have dB: "distinct [b0, b1, b2, b3]"
    using pair_swap(2) [OF sw3 sw4] dA by (simp only: reorder4(2) [symmetric])
  have sC: "set [c0, c1, c2, c3] = set P"
    using pair_swap(1) [OF sw5 sw6] sB by (simp only:)
  have dC: "distinct [c0, c1, c2, c3]"
    using pair_swap(2) [OF sw5 sw6] dB by (simp only:)
  have inj: "inj_on snd (set P)" by (simp add: P_def inj_on_def)
  have inv: "fst l = Some ([a, b, c, d] ! snd l)" if "l \<in> set P" for l
    using that by (auto simp: P_def)
  have mem: "c0 \<in> set P" "c1 \<in> set P" "c2 \<in> set P" "c3 \<in> set P"
    unfolding sC [symmetric] by simp_all
  note k = mem [THEN inv]
  have 1: "distinct (map snd [c0, c1, c2, c3])"
    unfolding distinct_map sC by (intro conjI dC inj)
  have "snd ` set P = {0, 1, 2, 3}" by (simp add: P_def)
  moreover have "{0..<length [a, b, c, d]} = {0, 1, 2, 3}" by auto
  ultimately have 2: "set (map snd [c0, c1, c2, c3]) = {0..<length [a, b, c, d]}"
    unfolding set_map sC by (simp only:)
  have 3: "sorted (map (\<lambda>i. [a, b, c, d] ! i) (map snd [c0, c1, c2, c3]))"
    using so unfolding k by simp
  from 1 2 3 show ?thesis unfolding r by blast
qed

lemma simd1: "argsort_simd [a] = [0]"
  by code_simp

lemma simd0: "argsort_simd [] = []"
  by code_simp

lemma short_list:
  assumes "length xs \<le> 4"
  obtains "xs = []" | a where "xs = [a]" | a b where "xs = [a, b]"
      | a b c where "xs = [a, b, c]" | a b c d where "xs = [a, b, c, d]"
proof -
  from assms have "length xs = 0 \<or> length xs = 1 \<or> length xs = 2 \<or> length xs = 3 \<or> length xs = 4"
    by arith
  then show ?thesis
    using that
    by (auto simp: length_Suc_conv numeral_2_eq_2 numeral_3_eq_3 eval_nat_numeral)
qed

lemma argsort_simd_spec: "argsort_spec argsort_simd"
  unfolding argsort_spec_def
proof
  fix xs :: vec
  show "distinct (argsort_simd xs) \<and> set (argsort_simd xs) = {0..<length xs} \<and>
        sorted (map (\<lambda>i. xs ! i) (argsort_simd xs))"
  proof (cases "length xs \<le> 4")
    case False
    then have "argsort_simd xs = argsort_stable xs" by (simp add: argsort_simd_def)
    then show ?thesis using argsort_stable_spec by (simp add: argsort_spec_def)
  next
    case True
    then show ?thesis
    proof (cases xs rule: short_list)
      case 1
      then show ?thesis by (simp add: simd0)
    next
      case (2 a)
      then show ?thesis by (simp add: simd1)
    next
      case (3 a b)
      show ?thesis unfolding 3 by (rule simd2)
    next
      case (4 a b c)
      show ?thesis unfolding 4 by (rule simd3)
    next
      case (5 a b c d)
      show ?thesis unfolding 5 by (rule simd4)
    qed
  qed
qed

lemma broadcast_rows_same:
  assumes "shape M m n" and "0 < m" and "length v = n"
  shows "broadcast_rows f M v = Inr (map (\<lambda>r. map2 f r v) M)"
    and "shape (map (\<lambda>r. map2 f r v) M) m n"
  using assms ncols_shape [OF assms(1,2)] by (auto simp: broadcast_rows_def shape_def)

lemma separation_measures_ok:
  assumes "shape W m n" and "0 < m" and "length ideal = n" and "length negative_ideal = n"
  shows "separation_measures W ideal negative_ideal =
           Inr (row_norms (map (\<lambda>r. map2 (-) r ideal) W),
                row_norms (map (\<lambda>r. map2 (-) r negative_ideal) W))"
  using broadcast_rows_same(1) [OF assms(1,2,3)] broadcast_rows_same(1) [OF assms(1,2,4)]
  by (simp add: separation_measures_def)

lemma collect_list_get:
  assumes "\<forall>i \<in> set ixs. i < length xs"
  shows "collect (map (list_get xs) ixs) = Inr (map (\<lambda>i. xs ! i) ixs)"
  by (rule collect_all_ok) (use assms in \<open>simp add: list_get_def\<close>)

lemma length_row_norms: "length (row_norms D) = length D"
  by (simp add: row_norms_def)

lemma normalized_weights:
  assumes "sum_list weights \<noteq> 0"
  shows "(if \<not> isclose (sum_list weights) 1 default_rtol default_atol
          then collect (map (\<lambda>w. np_divide w (sum_list weights)) weights)
          else Inr weights) =
         Inr (if \<not> isclose (sum_list weights) 1 default_rtol default_atol
              then map (\<lambda>w. w / sum_list weights) weights else weights)"
proof -
  have "collect (map (\<lambda>w. np_divide w (sum_list weights)) weights) =
          Inr (map (\<lambda>w. w / sum_list weights) weights)"
    by (rule collect_all_ok) (simp add: np_divide_def assms)
  then show ?thesis by simp
qed

text \<open>
  Claim C3, as amended. On well-formed input, and for any sorting routine that meets
  NumPy's promise for \<^verbatim>\<open>argsort\<close>, \<^verbatim>\<open>topsis_rank\<close> returns as its ranking
  \<^verbatim>\<open>argsort(-closeness)\<close>: a permutation of the alternative indices along which the
  closeness scores never increase (for weights with a non-zero sum). The order among
  alternatives with exactly equal scores is whatever the sorting routine gives; the
  source asks for no stable sort.
\<close>

theorem topsis_rank_descending:
  assumes srt: "argsort_spec srt"
    and sh: "shape D m n" and m: "0 < m" and lw: "length weights = n"
    and sw: "sum_list weights \<noteq> 0"
    and lt: "n \<le> length criteria_types"
    and ln: "\<forall>ns. names = Some ns \<longrightarrow> m \<le> length ns"
  shows "\<exists>r. topsis_rank srt D weights criteria_types names = Inr r \<and>
             length (tr_closeness r) = m \<and>
             tr_ranking r = srt (map uminus (tr_closeness r)) \<and>
             distinct (tr_ranking r) \<and> set (tr_ranking r) = {0..<m} \<and>
             (\<forall>a b. a < b \<and> b < m \<longrightarrow>
                tr_closeness r ! (tr_ranking r ! b) \<le> tr_closeness r ! (tr_ranking r ! a))"
proof -
  define w' where "w' = (if \<not> isclose (sum_list weights) 1 default_rtol default_atol
                     then map (\<lambda>w. w / sum_list weights) weights else weights)"
  have ws: "(if \<not> isclose (sum_list weights) 1 default_rtol default_atol
          then collect (map (\<lambda>w. np_divide w (sum_list weights)) weights)
          else Inr weights) = Inr w'"
    unfolding w'_def by (rule normalized_weights [OF sw])
  define N where "N = map (\<lambda>r. map2 (/) r (zero_to_one (col_norms D))) D"
  have nm: "normalize_matrix D = Inr N" unfolding N_def by (rule normalize_matrix_value)
  define W where "W = map (\<lambda>r. map2 (*) r w') N"
  have shN: "shape N m n" by (rule shape_normalize_matrix [OF nm sh])
  have lw': "length w' = n" using lw by (simp add: w'_def)
  have wm: "weighted_matrix N w' = Inr W"
    unfolding weighted_matrix_def W_def by (rule broadcast_rows_same(1) [OF shN m lw'])
  have shW: "shape W m n"
    unfolding W_def by (rule broadcast_rows_same(2) [OF shN m lw'])
  define ideal where "ideal = map (\<lambda>j. if lower (criteria_types ! j) = ''benefit''
                         then Max (set (column W j)) else Min (set (column W j))) [0..<n]"
  define neg where "neg = map (\<lambda>j. if lower (criteria_types ! j) = ''benefit''
                         then Min (set (column W j)) else Max (set (column W j))) [0..<n]"
  have idl: "ideal_solutions W criteria_types = Inr (ideal, neg)"
    unfolding ideal_def neg_def by (rule ideal_solutions_value [OF shW m lt])
  have li: "length ideal = n" "length neg = n" by (simp_all add: ideal_def neg_def)
  define sp where "sp = row_norms (map (\<lambda>r. map2 (-) r ideal) W)"
  define sm where "sm = row_norms (map (\<lambda>r. map2 (-) r neg) W)"
  have sep: "separation_measures W ideal neg = Inr (sp, sm)"
    unfolding sp_def sm_def by (rule separation_measures_ok [OF shW m li])
  have ls: "length sp = m" "length sm = m"
    using shW by (simp_all add: sp_def sm_def length_row_norms shape_def)
  define c where "c = map2 (/) sm (zero_to_one (map2 (+) sp sm))"
  have cl: "closeness_scores sp sm = Inr c"
    unfolding c_def by (rule closeness_scores_same_length) (simp add: ls)
  have lc: "length c = m" by (simp add: c_def ls length_zero_to_one)
  define rk where "rk = srt (map uminus c)"
  from srt have d: "distinct rk" and st: "set rk = {0..<m}"
    and so: "sorted (map (\<lambda>i. map uminus c ! i) rk)"
    unfolding argsort_spec_def rk_def by (simp_all add: lc)
  define nm where "nm = (case names of
                 None \<Rightarrow> map (\<lambda>i. ''Alternative_'' @ str_nat i) [0..<length D]
               | Some ns \<Rightarrow> ns)"
  have lD: "length D = m" using sh by (simp add: shape_def)
  have lnm: "m \<le> length nm" using ln lD by (cases names) (simp_all add: nm_def)
  have ra: "collect (map (list_get nm) rk) = Inr (map (\<lambda>i. nm ! i) rk)"
    by (rule collect_list_get) (use st lnm in auto)
  have rs: "collect (map (list_get c) rk) = Inr (map (\<lambda>i. c ! i) rk)"
    by (rule collect_list_get) (use st lc in auto)
  have run: "topsis_rank srt D weights criteria_types names =
               Inr \<lparr>tr_normalized_matrix = N, tr_weighted_matrix = W,
                    tr_ideal = ideal, tr_negative_ideal = neg,
                    tr_s_plus = sp, tr_s_minus = sm, tr_closeness = c,
                    tr_ranking = rk, tr_ranked_alternatives = map (\<lambda>i. nm ! i) rk,
                    tr_ranked_scores = map (\<lambda>i. c ! i) rk\<rparr>"
    unfolding topsis_rank_def Let_def ws
    unfolding nm_def [symmetric]
    by (simp add: nm wm idl sep cl rk_def [symmetric] ra rs)
  have desc: "c ! (rk ! b) \<le> c ! (rk ! a)" if "a < b" "b < m" for a b
  proof -
    have lr: "length rk = m"
      using d st distinct_card [OF d] by simp
    have ia: "rk ! a < m" and ib: "rk ! b < m"
      using st that lr nth_mem [of a rk] nth_mem [of b rk] by auto
    from so that lr have "map (\<lambda>i. map uminus c ! i) rk ! a \<le> map (\<lambda>i. map uminus c ! i) rk ! b"
      by (intro sorted_nth_mono) auto
    then show ?thesis using that lr ia ib lc by simp
  qed
  show ?thesis
    by (intro exI conjI, rule run) (use lc d st desc in \<open>auto simp: rk_def\<close>)
qed

text \<open>Three alternatives on one benefit criterion; alternatives 0 and 2 tie.\<close>

lemma sqrt_9: "sqrt 9 = 3"
  using real_sqrt_abs [of 3] by simp

lemma sqrt_ninth: "sqrt (1 / 9) = 1 / 3"
  using real_sqrt_abs [of "1 / 3"] by (simp add: power2_eq_square)

lemma tie_normalize: "normalize_matrix [[2], [1], [2]] = Inr [[2 / 3], [1 / 3], [2 / 3]]"
  by (simp add: normalize_matrix_value col_norms_def ncols_def column_def zero_to_one_def sqrt_9)

lemma tie_weights: "isclose 1 1 default_rtol default_atol"
  by (simp add: isclose_def default_rtol_def default_atol_def)

lemma tie_weighted: "weighted_matrix [[2 / 3], [1 / 3], [2 / 3]] [1] = Inr [[2 / 3], [1 / 3], [2 / 3]]"
  by code_simp

lemma tie_ideal:
  "ideal_solutions [[2 / 3], [1 / 3], [2 / 3]] [''benefit''] = Inr ([2 / 3], [1 / 3])"
  by code_simp

lemma tie_separation:
  "separation_measures [[2 / 3], [1 / 3], [2 / 3]] [2 / 3] [1 / 3] =
     Inr ([0, 1 / 3, 0], [1 / 3, 0, 1 / 3])"
  by (simp add: separation_measures_def broadcast_rows_def ncols_def row_norms_def
      power2_eq_square sqrt_ninth)

lemma tie_closeness: "closeness_scores [0, 1 / 3, 0] [1 / 3, 0, 1 / 3] = Inr [1, 0, 1]"
  by code_simp

lemma tie_names:
  "map (\<lambda>i. ''Alternative_'' @ str_nat i) [0..<length [[2], [1], [2 :: real]]] =
     [''Alternative_0'', ''Alternative_1'', ''Alternative_2'']"
  by code_simp

lemma tie_run:
  "topsis_rank srt [[2], [1], [2]] [1] [''benefit''] None =
     (case collect (map (list_get [''Alternative_0'', ''Alternative_1'', ''Alternative_2''])
                        (srt [- 1, 0, - 1])) of
        Inl e \<Rightarrow> Inl e
      | Inr ranked_alternatives \<Rightarrow>
          (case collect (map (list_get [1, 0, 1]) (srt [- 1, 0, - 1])) of
             Inl e \<Rightarrow> Inl e
           | Inr ranked_scores \<Rightarrow>
               Inr \<lparr>tr_normalized_matrix = [[2 / 3], [1 / 3], [2 / 3]],
                    tr_weighted_matrix = [[2 / 3], [1 / 3], [2 / 3]],
                    tr_ideal = [2 / 3], tr_negative_ideal = [1 / 3],
                    tr_s_plus = [0, 1 / 3, 0], tr_s_minus = [1 / 3, 0, 1 / 3],
                    tr_closeness = [1, 0, 1], tr_ranking = srt [- 1, 0, - 1],
                    tr_ranked_alternatives = ranked_alternatives,
                    tr_ranked_scores = ranked_scores\<rparr>))"
  unfolding topsis_rank_def Let_def tie_names
  by (simp add: tie_weights tie_normalize tie_weighted tie_ideal tie_separation tie_closeness
      cong: sum.case_cong)

lemma tie_stable: "argsort_stable [- 1, 0, - 1] = [0, 2, 1]"
  by code_simp

theorem topsis_rank_descending_witness:
  "argsort_spec argsort_stable \<and> shape [[2], [1], [2]] 3 1 \<and>
   map_sum id tr_closeness (topsis_rank argsort_stable [[2], [1], [2]] [1] [''benefit''] None) =
     Inr [1, 0, 1] \<and>
   map_sum id tr_ranking (topsis_rank argsort_stable [[2], [1], [2]] [1] [''benefit''] None) =
     Inr [0, 2, 1]"
proof -
  have sh: "shape [[2], [1], [2]] 3 1" by (simp add: shape_def)
  have h: "(0::nat) < 3" "length [1 :: real] = 1" "sum_list [1 :: real] \<noteq> 0"
    "1 \<le> length [''benefit'']" "\<forall>ns. None = Some ns \<longrightarrow> 3 \<le> length (ns :: string list)"
    by simp_all
  note main = topsis_rank_descending [OF argsort_stable_spec sh h]
  have "map_sum id tr_closeness (topsis_rank argsort_stable [[2], [1], [2]] [1] [''benefit''] None) =
     Inr [1, 0, 1]"
    unfolding tie_run tie_stable by (simp add: list_get_def)
  moreover have "map_sum id tr_ranking (topsis_rank argsort_stable [[2], [1], [2]] [1] [''benefit''] None) =
     Inr [0, 2, 1]"
    unfolding tie_run tie_stable by (simp add: list_get_def)
  ultimately show ?thesis using main argsort_stable_spec sh by blast
qed

text \<open>
  Four alternatives on one benefit criterion, with the values 1, 1, 2, 2: alternatives
  0 and 1 tie at closeness 0, alternatives 2 and 3 tie at closeness 1. The column norm
  is \<open>\<surd>10\<close>.
\<close>

lemma quad_normalize:
  "normalize_matrix [[1], [1], [2], [2]] =
     Inr [[1 / sqrt 10], [1 / sqrt 10], [2 / sqrt 10], [2 / sqrt 10]]"
  by (simp add: normalize_matrix_value col_norms_def ncols_def column_def zero_to_one_def)

lemma quad_weighted:
  "weighted_matrix [[1 / sqrt 10], [1 / sqrt 10], [2 / sqrt 10], [2 / sqrt 10]] [1] =
     Inr [[1 / sqrt 10], [1 / sqrt 10], [2 / sqrt 10], [2 / sqrt 10]]"
  by (simp add: weighted_matrix_def broadcast_rows_def ncols_def)

lemma quad_ideal:
  "ideal_solutions [[1 / sqrt 10], [1 / sqrt 10], [2 / sqrt 10], [2 / sqrt 10]] [''benefit''] =
     Inr ([2 / sqrt 10], [1 / sqrt 10])"
proof -
  have lo: "lower ''benefit'' = ''benefit''" by code_simp
  show ?thesis
    by (simp add: ideal_solutions_def ncols_def ideal_entry_def list_get_def column_def lo
        divide_le_cancel)
qed

lemma quad_separation:
  "separation_measures [[1 / sqrt 10], [1 / sqrt 10], [2 / sqrt 10], [2 / sqrt 10]]
       [2 / sqrt 10] [1 / sqrt 10] =
     Inr ([1 / sqrt 10, 1 / sqrt 10, 0, 0], [0, 0, 1 / sqrt 10, 1 / sqrt 10])"
proof -
  have a: "\<bar>1 / sqrt 10 - 2 / sqrt 10\<bar> = 1 / sqrt 10"
    by (simp add: diff_divide_distrib [symmetric])
  have b: "\<bar>2 / sqrt 10 - 1 / sqrt 10\<bar> = 1 / sqrt 10"
    by (simp add: diff_divide_distrib [symmetric])
  show ?thesis
    by (simp add: separation_measures_def broadcast_rows_def ncols_def row_norms_def a b)
qed

lemma quad_closeness:
  "closeness_scores [1 / sqrt 10, 1 / sqrt 10, 0, 0] [0, 0, 1 / sqrt 10, 1 / sqrt 10] =
     Inr [0, 0, 1, 1]"
  by (simp add: closeness_scores_def broadcast_vec_def zero_to_one_def np_divide_def)

lemma quad_names:
  "map (\<lambda>i. ''Alternative_'' @ str_nat i) [0..<length [[1], [1], [2], [2 :: real]]] =
     [''Alternative_0'', ''Alternative_1'', ''Alternative_2'', ''Alternative_3'']"
  by code_simp

lemma quad_run:
  "topsis_rank srt [[1], [1], [2], [2]] [1] [''benefit''] None =
     (case collect (map (list_get [''Alternative_0'', ''Alternative_1'', ''Alternative_2'',
                                   ''Alternative_3''])
                        (srt [0, 0, - 1, - 1])) of
        Inl e \<Rightarrow> Inl e
      | Inr ranked_alternatives \<Rightarrow>
          (case collect (map (list_get [0, 0, 1, 1]) (srt [0, 0, - 1, - 1])) of
             Inl e \<Rightarrow> Inl e
           | Inr ranked_scores \<Rightarrow>
               Inr \<lparr>tr_normalized_matrix =
                      [[1 / sqrt 10], [1 / sqrt 10], [2 / sqrt 10], [2 / sqrt 10]],
                    tr_weighted_matrix =
                      [[1 / sqrt 10], [1 / sqrt 10], [2 / sqrt 10], [2 / sqrt 10]],
                    tr_ideal = [2 / sqrt 10], tr_negative_ideal = [1 / sqrt 10],
                    tr_s_plus = [1 / sqrt 10, 1 / sqrt 10, 0, 0],
                    tr_s_minus = [0, 0, 1 / sqrt 10, 1 / sqrt 10],
                    tr_closeness = [0, 0, 1, 1], tr_ranking = srt [0, 0, - 1, - 1],
                    tr_ranked_alternatives = ranked_alternatives,
                    tr_ranked_scores = ranked_scores\<rparr>))"
  unfolding topsis_rank_def Let_def quad_names
  by (simp add: tie_weights quad_normalize quad_weighted quad_ideal quad_separation
      quad_closeness cong: sum.case_cong)

lemma quad_stable: "argsort_stable [0, 0, - 1, - 1] = [2, 3, 0, 1]"
  by code_simp

lemma quad_simd: "argsort_simd [0, 0, - 1, - 1] = [3, 2, 1, 0]"
  by code_simp

text \<open>
  Claim C3 as it is stated fails. On the decision matrix \<open>[[1], [1], [2], [2]]\<close> the
  closeness scores are 0, 0, 1, 1, so the ranking with ties in index order is
  \<open>[2, 3, 0, 1]\<close>. That is what insertion sort gives; the sorting network that NumPy
  runs on a processor with AVX2 or AVX-512, which meets NumPy's promise for \<^verbatim>\<open>argsort\<close>,
  gives \<open>[3, 2, 1, 0]\<close>: alternative 3 before alternative 2, and alternative 1 before
  alternative 0.
\<close>

theorem topsis_rank_ties_not_by_index:
  "argsort_spec argsort_simd \<and>
   map_sum id tr_closeness
     (topsis_rank argsort_simd [[1], [1], [2], [2]] [1] [''benefit''] None) = Inr [0, 0, 1, 1] \<and>
   map_sum id tr_ranking
     (topsis_rank argsort_simd [[1], [1], [2], [2]] [1] [''benefit''] None) = Inr [3, 2, 1, 0] \<and>
   map_sum id tr_ranking
     (topsis_rank argsort_stable [[1], [1], [2], [2]] [1] [''benefit''] None) = Inr [2, 3, 0, 1]"
proof -
  have "map_sum id tr_closeness
     (topsis_rank argsort_simd [[1], [1], [2], [2]] [1] [''benefit''] None) = Inr [0, 0, 1, 1]"
    unfolding quad_run quad_simd by (simp add: list_get_def)
  moreover have "map_sum id tr_ranking
     (topsis_rank argsort_simd [[1], [1], [2], [2]] [1] [''benefit''] None) = Inr [3, 2, 1, 0]"
    unfolding quad_run quad_simd by (simp add: list_get_def)
  moreover have "map_sum id tr_ranking
     (topsis_rank argsort_stable [[1], [1], [2], [2]] [1] [''benefit''] None) = Inr [2, 3, 0, 1]"
    unfolding quad_run quad_stable by (simp add: list_get_def)
  ultimately show ?thesis using argsort_simd_spec by blast
qed


section \<open>Properties of the AHP engine\<close>

lemma takeWhile_stops: "m \<in> set xs \<Longrightarrow> length (takeWhile (\<lambda>x. x \<noteq> m) xs) < length xs"
  by (induction xs) auto

lemma np_argmax_nonempty:
  assumes "xs \<noteq> []"
  shows "\<exists>k. np_argmax xs = Inr k \<and> k < length xs"
proof -
  have mx: "np_max xs = Inr (Max (set xs))" by (rule np_max_Max [OF assms])
  have "Max (set xs) \<in> set xs" using assms by (intro Max_in) auto
  then have "length (takeWhile (\<lambda>x. x \<noteq> Max (set xs)) xs) < length xs"
    by (rule takeWhile_stops)
  then show ?thesis by (simp add: np_argmax_def mx)
qed







lemma random_index_lookup:
  "dict_get RANDOM_INDEX n d =
     (if n = 1 then 0.00 else if n = 2 then 0.00 else if n = 3 then 0.58
      else if n = 4 then 0.90 else if n = 5 then 1.12 else if n = 6 then 1.24
      else if n = 7 then 1.32 else if n = 8 then 1.41 else if n = 9 then 1.45
      else if n = 10 then 1.49 else d)"
  by (simp add: dict_get_def RANDOM_INDEX_def)

lemma ahp_weights_returns:
  assumes "shape A (length A) (length A)" and "fst (eig A) \<noteq> []"
  shows "\<exists>weights lambda_max ci. ahp_weights eig A = Inr (weights, lambda_max, ci)"
proof -
  obtain w v where e: "eig A = (w, v)" by (cases "eig A")
  with assms(2) have "map Re w \<noteq> []" by simp
  from np_argmax_nonempty [OF this] obtain k where k: "np_argmax (map Re w) = Inr k" by blast
  show ?thesis
    unfolding ahp_weights_def Let_def e prod.case k sum.case using assms(1) by simp
qed

text \<open>
  Claim C2. For every square comparison matrix (on which the eigen-solver returns at
  least one eigenvalue), \<^verbatim>\<open>ahp_consistency_ratio\<close> looks up RI in the standard table
  (1 and 2 give 0.00, 3 gives 0.58, 4 gives 0.90, 5 gives 1.12, 6 gives 1.24, 7 gives
  1.32, 8 gives 1.41, 9 gives 1.45, 10 gives 1.49, and any other size falls back to
  1.49), sets \<open>CR = CI / RI\<close> when \<open>RI > 0\<close> and \<open>CR = 0\<close> when \<open>RI = 0\<close>, and reports
  \<open>is_consistent\<close> exactly when \<open>CR < 0.10\<close>. The weights, \<open>lambda_max\<close> and CI are those
  of \<^verbatim>\<open>ahp_weights\<close>.
\<close>

theorem ahp_consistency_ratio_table:
  assumes sq: "shape A n n" and ev: "fst (eig A) \<noteq> []"
  shows "\<exists>r. ahp_consistency_ratio eig A = Inr r \<and>
             ahp_weights eig A = Inr (ar_weights r, ar_lambda_max r, ar_ci r) \<and>
             ar_ri r =
               (if n = 1 then 0.00 else if n = 2 then 0.00 else if n = 3 then 0.58
                else if n = 4 then 0.90 else if n = 5 then 1.12 else if n = 6 then 1.24
                else if n = 7 then 1.32 else if n = 8 then 1.41 else if n = 9 then 1.45
                else if n = 10 then 1.49 else 1.49) \<and>
             ar_cr r = (if ar_ri r > 0 then ar_ci r / ar_ri r else 0) \<and>
             ar_is_consistent r = (ar_cr r < 0.10)"
proof -
  have n: "length A = n" using sq by (simp add: shape_def)
  from ahp_weights_returns [of A eig] sq ev n
  obtain weights lambda_max ci where w: "ahp_weights eig A = Inr (weights, lambda_max, ci)"
    by auto
  define ri where "ri = dict_get RANDOM_INDEX n 1.49"
  define cr where "cr = (if ri > 0 then ci / ri else 0)"
  have run: "ahp_consistency_ratio eig A =
               Inr \<lparr>ar_weights = weights, ar_lambda_max = lambda_max, ar_ci = ci,
                    ar_ri = ri, ar_cr = cr, ar_is_consistent = (cr < 0.10),
                    ar_message = (if cr < 0.10 then Consistent cr else Inconsistent cr)\<rparr>"
    unfolding ahp_consistency_ratio_def Let_def n w sum.case prod.case
      ri_def [symmetric] cr_def [symmetric] by simp
  show ?thesis
    by (intro exI conjI, rule run) (simp_all add: w ri_def random_index_lookup cr_def)
qed

theorem ahp_consistency_ratio_table_witness:
  "shape [[1, 2, 1], [1 / 2, 1, 4], [1, 1 / 4, 1]] 3 3 \<and>
   ahp_consistency_ratio eig_three_criteria [[1, 2, 1], [1 / 2, 1, 4], [1, 1 / 4, 1]] =
     Inr \<lparr>ar_weights = [2 / 5, 2 / 5, 1 / 5], ar_lambda_max = 7 / 2, ar_ci = 1 / 4,
          ar_ri = 0.58, ar_cr = 25 / 58, ar_is_consistent = False,
          ar_message = Inconsistent (25 / 58)\<rparr>"
proof -
  have sh: "shape [[1, 2, 1], [1 / 2, 1, 4], [1, 1 / 4, 1]] 3 3" by (simp add: shape_def)
  have ev: "fst (eig_three_criteria [[1, 2, 1], [1 / 2, 1, 4], [1, 1 / 4, 1]]) \<noteq> []"
    by (simp add: eig_three_criteria_def)
  have am: "np_argmax [7 / 2, - (1 / 4), - (1 / 4)] = Inr 0"
    by code_simp
  have w: "ahp_weights eig_three_criteria [[1, 2, 1], [1 / 2, 1, 4], [1, 1 / 4, 1]] =
     Inr ([2 / 5, 2 / 5, 1 / 5], 7 / 2, 1 / 4)"
    unfolding ahp_weights_def eig_three_criteria_def Let_def
    by (simp add: am shape_def)
  have run: "ahp_consistency_ratio eig_three_criteria [[1, 2, 1], [1 / 2, 1, 4], [1, 1 / 4, 1]] =
     Inr \<lparr>ar_weights = [2 / 5, 2 / 5, 1 / 5], ar_lambda_max = 7 / 2, ar_ci = 1 / 4,
          ar_ri = 0.58, ar_cr = 25 / 58, ar_is_consistent = False,
          ar_message = Inconsistent (25 / 58)\<rparr>"
    unfolding ahp_consistency_ratio_def Let_def w sum.case prod.case
    by (simp add: random_index_lookup)
  from ahp_consistency_ratio_table
         [where eig = eig_three_criteria and A = "[[1, 2, 1], [1 / 2, 1, 4], [1, 1 / 4, 1]]"
            and n = 3, OF sh ev] sh run
  show ?thesis by blast
qed


section \<open>The sensitivity analysis leaves the caller's arrays alone\<close>

lemma frame_refl: "frame h h"
  by (simp add: frame_def)

lemma frame_trans: "frame h1 h2 \<Longrightarrow> frame h2 h3 \<Longrightarrow> frame h1 h3"
  by (auto simp: frame_def)

lemma store_copy_frame:
  assumes "store_copy h a = (v, h1)"
  shows "frame h h1" and "v = lim h" and "lim h1 = Suc (lim h)"
  using assms by (auto simp: store_copy_def frame_def)

text \<open>A write through a fresh address keeps the frame.\<close>

lemma store_setitem_frame:
  assumes "store_setitem h1 v i j x = Inr h2" and "frame h h1" and "lim h \<le> v"
  shows "frame h h2"
  using assms by (auto simp: store_setitem_def frame_def split: sum.splits)

lemma perturb_frame: "frame h (snd (perturb eig a i j ov bw factor h))"
proof -
  obtain v h1 where c: "store_copy h a = (v, h1)" by (cases "store_copy h a")
  note f1 = store_copy_frame(1) [OF c] and v = store_copy_frame(2) [OF c]
  have fresh: "lim h \<le> v" using v by simp
  show ?thesis
  proof (cases "store_setitem h1 v i j (ov * factor)")
    case (Inl e)
    then show ?thesis using c f1 by (simp add: perturb_def)
  next
    case h2: (Inr h2)
    have f2: "frame h h2" by (rule store_setitem_frame [OF h2 f1 fresh])
    show ?thesis
    proof (cases "store_setitem h2 v j i (1 / (ov * factor))")
      case (Inl e)
      then show ?thesis using c h2 f2 by (simp add: perturb_def)
    next
      case h3: (Inr h3)
      have f3: "frame h h3" by (rule store_setitem_frame [OF h3 f2 fresh])
      show ?thesis
        using c h2 h3 f3 by (simp add: perturb_def Let_def split: sum.splits)
    qed
  qed
qed

lemma factor_loop_frame: "frame h (snd (factor_loop eig a i j ov bw fs vs h))"
proof (induction fs arbitrary: vs h)
  case Nil
  show ?case by (simp add: frame_refl)
next
  case (Cons factor fs)
  obtain r h' where p: "perturb eig a i j ov bw factor h = (r, h')"
    by (cases "perturb eig a i j ov bw factor h")
  have f: "frame h h'" using perturb_frame [of h eig a i j ov bw factor] p by simp
  show ?case
  proof (cases r)
    case (Inl e)
    then show ?thesis using p f by simp
  next
    case (Inr kv)
    obtain key entry where kv: "kv = (key, entry)" by (cases kv)
    have "frame h' (snd (factor_loop eig a i j ov bw fs (dict_set vs key entry) h'))"
      by (rule Cons.IH)
    with f have "frame h (snd (factor_loop eig a i j ov bw fs (dict_set vs key entry) h'))"
      by (rule frame_trans)
    then show ?thesis using p Inr kv by simp
  qed
qed

lemma pair_loop_frame: "frame h (snd (pair_loop eig a vr bw ps vs h))"
proof (induction ps arbitrary: vs h)
  case Nil
  show ?case by (simp add: frame_refl)
next
  case (Cons p ps)
  obtain i j where ij: "p = (i, j)" by (cases p)
  show ?case
  proof (cases "getitem2 (arrays h a) i j")
    case (Inl e)
    then show ?thesis by (simp add: ij frame_refl)
  next
    case ov: (Inr ov)
    obtain r h' where fl: "factor_loop eig a i j ov bw [1 - vr, 1 + vr] vs h = (r, h')"
      by (cases "factor_loop eig a i j ov bw [1 - vr, 1 + vr] vs h")
    have f: "frame h h'"
      using factor_loop_frame [of h eig a i j ov bw "[1 - vr, 1 + vr]" vs] fl by simp
    show ?thesis
    proof (cases r)
      case (Inl e)
      then show ?thesis using ov fl f by (simp add: ij)
    next
      case (Inr vs')
      have "frame h' (snd (pair_loop eig a vr bw ps vs' h'))" by (rule Cons.IH)
      with f have "frame h (snd (pair_loop eig a vr bw ps vs' h'))" by (rule frame_trans)
      then show ?thesis using ov fl Inr by (simp add: ij)
    qed
  qed
qed

text \<open>
  Claim C9. \<^verbatim>\<open>ahp_sensitivity_analysis\<close> never mutates its input: after the call, also
  one that ends in an exception, the base comparison matrix holds exactly the entries
  it held before, and so does every other array that was allocated before the call,
  because every perturbation for every (pair, direction) combination is written into a
  fresh copy of the matrix.
\<close>

theorem ahp_sensitivity_analysis_frame:
  assumes "comparison_matrix < lim h"
  shows "arrays (snd (ahp_sensitivity_analysis eig comparison_matrix vary_indices
                        variation_range h)) comparison_matrix
           = arrays h comparison_matrix \<and>
         frame h (snd (ahp_sensitivity_analysis eig comparison_matrix vary_indices
                         variation_range h))"
proof -
  have f: "frame h (snd (ahp_sensitivity_analysis eig comparison_matrix vary_indices
                           variation_range h))"
  proof (cases "ahp_consistency_ratio eig (arrays h comparison_matrix)")
    case (Inl e)
    then show ?thesis by (simp add: ahp_sensitivity_analysis_def frame_refl)
  next
    case (Inr base)
    obtain r h' where pl: "pair_loop eig comparison_matrix variation_range (ar_weights base)
                             vary_indices [] h = (r, h')"
      by (cases "pair_loop eig comparison_matrix variation_range (ar_weights base)
                   vary_indices [] h")
    have "frame h h'"
      using pair_loop_frame [of h eig comparison_matrix variation_range "ar_weights base"
          vary_indices "[]"] pl by simp
    then show ?thesis
      using Inr pl by (cases r) (simp_all add: ahp_sensitivity_analysis_def)
  qed
  with assms show ?thesis by (simp add: frame_def)
qed

lemma store_two_run:
  "map (arrays (snd (ahp_sensitivity_analysis eig_two_criteria 0 [(0, 1)] (1 / 4) store_two)))
       [0, 1, 2] =
     [[[1, 4 / 3], [3 / 4, 1]], [[1, 1], [1, 1]], [[1, 5 / 3], [3 / 5, 1]]]"
  by code_simp

theorem ahp_sensitivity_analysis_frame_witness:
  "0 < lim store_two \<and>
   arrays (snd (ahp_sensitivity_analysis eig_two_criteria 0 [(0, 1)] (1 / 4) store_two)) 0 =
     [[1, 4 / 3], [3 / 4, 1]] \<and>
   arrays (snd (ahp_sensitivity_analysis eig_two_criteria 0 [(0, 1)] (1 / 4) store_two)) 1 =
     [[1, 1], [1, 1]] \<and>
   arrays (snd (ahp_sensitivity_analysis eig_two_criteria 0 [(0, 1)] (1 / 4) store_two)) 2 =
     [[1, 5 / 3], [3 / 5, 1]]"
proof -
  have l: "0 < lim store_two" by (simp add: store_two_def)
  have a: "arrays store_two 0 = [[1, 4 / 3], [3 / 4, 1]]" by (simp add: store_two_def)
  from ahp_sensitivity_analysis_frame [OF l, of eig_two_criteria "[(0, 1)]" "1 / 4"] a
  have "arrays (snd (ahp_sensitivity_analysis eig_two_criteria 0 [(0, 1)] (1 / 4) store_two)) 0 =
     [[1, 4 / 3], [3 / 4, 1]]" by simp
  with l store_two_run show ?thesis by simp
qed


section \<open>Properties of the DEA engine\<close>

lemma column_length: "length (column M j) = length M"
  by (simp add: column_def)

lemma output_rows_ok:
  assumes "length outputs = n"
  shows "collect (map (\<lambda>r. assign_row n (map uminus (column outputs r))) js) =
           Inr (map (\<lambda>r. map uminus (column outputs r)) js)"
  by (rule collect_all_ok) (simp add: assign_row_def column_length assms)

lemma dea_problem_ok:
  assumes "dea_data inputs outputs n p q"
  shows "\<exists>P. dea_problem inputs outputs k orientation = Inr P \<and> length (lp_c P) = Suc n"
proof -
  have li: "length inputs = n" and lo: "length outputs = n"
    using assms by (simp_all add: dea_data_def shape_def)
  show ?thesis
    unfolding dea_problem_def output_problem_def input_problem_def Let_def li
    by (simp add: output_rows_ok [OF lo])
qed

lemma matT_vec_ok: "length v = length M \<Longrightarrow> \<exists>u. matT_vec M p v = Inr u"
  by (simp add: matT_vec_def)

lemma dea_efficiency_unfold:
  assumes d: "dea_data inputs outputs n p q" and k: "k < n"
  shows "dea_efficiency linprog inputs outputs k orientation =
           (if orientation = ''output''
            then dea_output_oriented linprog inputs outputs (inputs ! k) (outputs ! k)
            else dea_input_oriented linprog inputs outputs (inputs ! k) (outputs ! k))"
  using assms by (simp add: dea_efficiency_def list_get_def dea_data_def shape_def)

lemma dea_efficiency_failed:
  assumes d: "dea_data inputs outputs n p q" and k: "k < n"
    and P: "dea_problem inputs outputs k orientation = Inr P"
    and f: "\<not> lp_success (linprog P)"
  shows "dea_efficiency linprog inputs outputs k orientation =
           Inr (failed_result (scale_key orientation) (linprog P))"
  using P f unfolding dea_efficiency_unfold [OF d k]
  by (simp add: dea_problem_def dea_output_oriented_def dea_input_oriented_def scale_key_def
      split: if_splits)

lemma dea_efficiency_solved:
  assumes d: "dea_data inputs outputs n p q" and k: "k < n"
    and P: "dea_problem inputs outputs k orientation = Inr P"
    and lc: "length (lp_c P) = Suc n"
    and s: "lp_success (linprog P)" and sz: "linprog_sized linprog"
  shows "\<exists>r e. dea_efficiency linprog inputs outputs k orientation = Inr r \<and>
               dr_efficiency r = Some e \<and> result_form (scale_key orientation) r"
proof -
  have li: "length inputs = n" and lo: "length outputs = n"
    using d by (simp_all add: dea_data_def shape_def)
  from sz s lc have "length (lp_x (linprog P)) = Suc n" by (simp add: linprog_sized_def)
  then obtain v lambdas where x: "lp_x (linprog P) = v # lambdas" and ll: "length lambdas = n"
    by (cases "lp_x (linprog P)") auto
  obtain used where used: "matT_vec inputs (ncols inputs) lambdas = Inr used"
    using matT_vec_ok [of lambdas inputs] ll li by auto
  obtain made where made: "matT_vec outputs (ncols outputs) lambdas = Inr made"
    using matT_vec_ok [of lambdas outputs] ll lo by auto
  show ?thesis
  proof (cases "orientation = ''output''")
    case True
    with P have "output_problem inputs outputs (inputs ! k) (outputs ! k) = Inr P"
      by (simp add: dea_problem_def)
    then show ?thesis
      unfolding dea_efficiency_unfold [OF d k]
      using True s x used made
      by (simp add: dea_output_oriented_def Let_def result_form_def scale_key_def)
  next
    case False
    with P have "input_problem inputs outputs (inputs ! k) (outputs ! k) = Inr P"
      by (simp add: dea_problem_def)
    then show ?thesis
      unfolding dea_efficiency_unfold [OF d k]
      using False s x used made
      by (simp add: dea_input_oriented_def Let_def result_form_def scale_key_def)
  qed
qed

lemma dea_efficiency_returns:
  assumes d: "dea_data inputs outputs n p q" and k: "k < n" and sz: "linprog_sized linprog"
  shows "\<exists>r. dea_efficiency linprog inputs outputs k orientation = Inr r \<and>
             result_form (scale_key orientation) r \<and>
             (solver_fails linprog inputs outputs k orientation \<longrightarrow> dr_efficiency r = None)"
proof -
  from dea_problem_ok [OF d, of k orientation]
  obtain P where P: "dea_problem inputs outputs k orientation = Inr P"
    and lc: "length (lp_c P) = Suc n" by blast
  show ?thesis
  proof (cases "lp_success (linprog P)")
    case True
    from dea_efficiency_solved [where linprog = linprog, OF d k P lc True sz] True P show ?thesis
      by (auto simp: solver_fails_def)
  next
    case False
    from dea_efficiency_failed [where linprog = linprog, OF d k P False] show ?thesis
      by (simp add: failed_result_def result_form_def)
  qed
qed

lemma collect_each:
  assumes "\<forall>x \<in> set xs. \<exists>y. f x = Inr y"
  shows "\<exists>ys. collect (map f xs) = Inr ys \<and> length ys = length xs \<and>
              (\<forall>i < length xs. f (xs ! i) = Inr (ys ! i))"
  using assms
proof (induction xs)
  case Nil
  then show ?case by simp
next
  case (Cons x xs)
  then obtain y where y: "f x = Inr y" by auto
  from Cons obtain ys where ys: "collect (map f xs) = Inr ys" "length ys = length xs"
    "\<forall>i < length xs. f (xs ! i) = Inr (ys ! i)" by auto
  have "\<forall>i < length (x # xs). f ((x # xs) ! i) = Inr ((y # ys) ! i)"
    using y ys(3) by (auto simp: nth_Cons split: nat.splits)
  then show ?case using y ys by auto
qed

lemma dict_set_keys: "fst ` set (dict_set d k v) = insert k (fst ` set d)"
  by (induction d) force+

text \<open>The sweep over all DMUs returns one result per DMU.\<close>

lemma dea_sweep:
  assumes d: "dea_data inputs outputs n p q" and sz: "linprog_sized linprog"
  shows "\<exists>results.
           collect (map (\<lambda>i. dea_efficiency linprog inputs outputs i orientation) [0..<n]) =
             Inr results \<and>
           length results = n \<and>
           (\<forall>i < n. dea_efficiency linprog inputs outputs i orientation = Inr (results ! i) \<and>
                    result_form (scale_key orientation) (results ! i) \<and>
                    (solver_fails linprog inputs outputs i orientation \<longrightarrow>
                       dr_efficiency (results ! i) = None))"
proof -
  have "\<forall>i \<in> set [0..<n]. \<exists>r. dea_efficiency linprog inputs outputs i orientation = Inr r"
  proof
    fix i assume "i \<in> set [0..<n]"
    then have "i < n" by simp
    from dea_efficiency_returns [OF d this sz, of orientation] 
    show "\<exists>r. dea_efficiency linprog inputs outputs i orientation = Inr r" by blast
  qed
  from collect_each [OF this]
  obtain results where r: "collect (map (\<lambda>i. dea_efficiency linprog inputs outputs i orientation)
                                        [0..<n]) = Inr results"
    and l: "length results = n"
    and e: "\<forall>i < n. dea_efficiency linprog inputs outputs i orientation = Inr (results ! i)"
    by auto
  have "result_form (scale_key orientation) (results ! i) \<and>
        (solver_fails linprog inputs outputs i orientation \<longrightarrow> dr_efficiency (results ! i) = None)"
    if "i < n" for i
    using dea_efficiency_returns [OF d that sz, of orientation] e that by auto
  with r l e show ?thesis by blast
qed

lemma improvement_entry_ok:
  assumes "result_form (scale_key orientation) r" and "dr_efficiency r \<noteq> None"
    and "i < length inputs" and "i < length outputs"
  shows "\<exists>entry. improvement_entry inputs outputs orientation r i = Inr entry"
proof -
  from assms(1,2) obtain v where "dr_scale r = Some v" "dr_scale_key r = scale_key orientation"
    by (auto simp: result_form_def split: option.splits)
  then show ?thesis
    using assms(3,4)
    by (simp add: improvement_entry_def scale_of_def scale_key_def list_get_def Let_def)
qed

text \<open>
  The keys of \<^verbatim>\<open>improvement_targets\<close> are names of DMUs whose efficiency is there and
  whose flag is not true.
\<close>

lemma targets_loop_keys:
  assumes "\<forall>i \<in> set ixs. i < length results \<and> i < length inputs \<and> i < length outputs \<and>
                          i < length dmu_names \<and>
                          result_form (scale_key orientation) (results ! i)"
  shows "\<exists>targets'.
           targets_loop inputs outputs dmu_names orientation results ixs targets = Inr targets' \<and>
           fst ` set targets' \<subseteq>
             fst ` set targets \<union>
             (\<lambda>i. dmu_names ! i) `
               {i \<in> set ixs. dr_efficiency (results ! i) \<noteq> None \<and>
                               dr_is_efficient (results ! i) \<noteq> Some True}"
  using assms
proof (induction ixs arbitrary: targets)
  case Nil
  then show ?case by simp
next
  case (Cons i ixs)
  let ?r = "results ! i"
  from Cons.prems have i: "i < length results" "i < length inputs" "i < length outputs"
    "i < length dmu_names" "result_form (scale_key orientation) ?r" by auto
  from Cons.prems have rest: "\<forall>i \<in> set ixs. i < length results \<and> i < length inputs \<and>
      i < length outputs \<and> i < length dmu_names \<and>
      result_form (scale_key orientation) (results ! i)" by auto
  show ?case
  proof (cases "dr_is_efficient ?r \<noteq> Some True \<and> dr_efficiency ?r \<noteq> None")
    case True
    then obtain entry where en: "improvement_entry inputs outputs orientation ?r i = Inr entry"
      using improvement_entry_ok [OF i(5) _ i(2,3)] by blast
    from Cons.IH [OF rest, of "dict_set targets (dmu_names ! i) entry"]
    obtain t' where t': "targets_loop inputs outputs dmu_names orientation results ixs
                           (dict_set targets (dmu_names ! i) entry) = Inr t'"
      and k': "fst ` set t' \<subseteq>
             fst ` set (dict_set targets (dmu_names ! i) entry) \<union>
             (\<lambda>i. dmu_names ! i) `
               {i \<in> set ixs. dr_efficiency (results ! i) \<noteq> None \<and>
                               dr_is_efficient (results ! i) \<noteq> Some True}"
      by blast
    have run: "targets_loop inputs outputs dmu_names orientation results (i # ixs) targets = Inr t'"
      using True i en t' by (simp add: list_get_def)
    have "fst ` set t' \<subseteq>
             fst ` set targets \<union>
             (\<lambda>j. dmu_names ! j) `
               {j \<in> set (i # ixs). dr_efficiency (results ! j) \<noteq> None \<and>
                                     dr_is_efficient (results ! j) \<noteq> Some True}"
      using k' True unfolding dict_set_keys by auto
    with run show ?thesis by blast
  next
    case False
    from Cons.IH [OF rest, of targets]
    obtain t' where t': "targets_loop inputs outputs dmu_names orientation results ixs targets
                           = Inr t'"
      and k': "fst ` set t' \<subseteq>
             fst ` set targets \<union>
             (\<lambda>i. dmu_names ! i) `
               {i \<in> set ixs. dr_efficiency (results ! i) \<noteq> None \<and>
                               dr_is_efficient (results ! i) \<noteq> Some True}"
      by blast
    have run: "targets_loop inputs outputs dmu_names orientation results (i # ixs) targets = Inr t'"
      using False i t' by (auto simp: list_get_def)
    have "fst ` set t' \<subseteq>
             fst ` set targets \<union>
             (\<lambda>j. dmu_names ! j) `
               {j \<in> set (i # ixs). dr_efficiency (results ! j) \<noteq> None \<and>
                                     dr_is_efficient (results ! j) \<noteq> Some True}"
      using k' by auto
    with run show ?thesis by blast
  qed
qed

lemma names_in_use_None: "length (names_in_use None n) = n"
  by (simp add: names_in_use_def)

text \<open>The run of \<^verbatim>\<open>dea_efficiency_all\<close> on well-formed data.\<close>

lemma dea_efficiency_all_run:
  assumes d: "dea_data inputs outputs n p q" and sz: "linprog_sized linprog"
    and srt: "argsort_spec srt" and ln: "n \<le> length (names_in_use dmu_names n)"
  shows "\<exists>R. dea_efficiency_all linprog srt inputs outputs dmu_names orientation = Inr R \<and>
             length (da_results R) = n \<and>
             (\<forall>i < n. dea_efficiency linprog inputs outputs i orientation =
                        Inr (da_results R ! i) \<and>
                      result_form (scale_key orientation) (da_results R ! i) \<and>
                      (solver_fails linprog inputs outputs i orientation \<longrightarrow>
                         dr_efficiency (da_results R ! i) = None)) \<and>
             da_efficiencies R =
               map (\<lambda>r. case dr_efficiency r of None \<Rightarrow> 0 | Some e \<Rightarrow> e) (da_results R) \<and>
             da_ranking R = srt (map uminus (da_efficiencies R)) \<and>
             da_frontier_dmus R =
               filter (\<lambda>i. isclose (da_efficiencies R ! i) 1 default_rtol frontier_atol) [0..<n] \<and>
             fst ` set (da_improvement_targets R) \<subseteq>
               (\<lambda>i. names_in_use dmu_names n ! i) `
                 {i \<in> set [0..<n]. dr_efficiency (da_results R ! i) \<noteq> None \<and>
                                   dr_is_efficient (da_results R ! i) \<noteq> Some True}"
proof -
  have li: "length inputs = n" and lo: "length outputs = n"
    using d by (simp_all add: dea_data_def shape_def)
  define nm where "nm = names_in_use dmu_names n"
  from dea_sweep [OF d sz, of orientation]
  obtain results where
    rs: "collect (map (\<lambda>i. dea_efficiency linprog inputs outputs i orientation) [0..<n]) =
           Inr results"
    and lr: "length results = n"
    and each: "\<forall>i < n. dea_efficiency linprog inputs outputs i orientation = Inr (results ! i) \<and>
                    result_form (scale_key orientation) (results ! i) \<and>
                    (solver_fails linprog inputs outputs i orientation \<longrightarrow>
                       dr_efficiency (results ! i) = None)"
    by blast
  define eff where "eff = map (\<lambda>r. case dr_efficiency r of None \<Rightarrow> 0 | Some e \<Rightarrow> e) results"
  have le: "length eff = n" by (simp add: eff_def lr)
  define rk where "rk = srt (map uminus eff)"
  define fr where "fr = filter (\<lambda>i. isclose (eff ! i) 1 default_rtol frontier_atol)
                          [0..<length eff]"
  have strk: "set rk = {0..<n}"
    using srt by (simp add: argsort_spec_def rk_def le)
  have "\<forall>i \<in> set [0..<n]. i < length results \<and> i < length inputs \<and> i < length outputs \<and>
                          i < length nm \<and> result_form (scale_key orientation) (results ! i)"
    using lr li lo ln each by (auto simp: nm_def)
  from targets_loop_keys [OF this, of "[]"]
  obtain tg where tg: "targets_loop inputs outputs nm orientation results [0..<n] [] = Inr tg"
    and keys: "fst ` set tg \<subseteq>
               (\<lambda>i. nm ! i) ` {i \<in> set [0..<n]. dr_efficiency (results ! i) \<noteq> None \<and>
                                              dr_is_efficient (results ! i) \<noteq> Some True}"
    by auto
  have fn: "collect (map (list_get nm) fr) = Inr (map (\<lambda>i. nm ! i) fr)"
    by (rule collect_list_get) (use ln le in \<open>auto simp: fr_def nm_def\<close>)
  have rn: "collect (map (list_get nm) rk) = Inr (map (\<lambda>i. nm ! i) rk)"
    by (rule collect_list_get) (use ln strk in \<open>auto simp: nm_def\<close>)
  have re: "collect (map (list_get eff) rk) = Inr (map (\<lambda>i. eff ! i) rk)"
    by (rule collect_list_get) (use le strk in auto)
  have run: "dea_efficiency_all linprog srt inputs outputs dmu_names orientation =
               Inr \<lparr>da_efficiencies = eff, da_results = results,
                    da_frontier_dmus = fr, da_frontier_names = map (\<lambda>i. nm ! i) fr,
                    da_ranking = rk, da_ranked_names = map (\<lambda>i. nm ! i) rk,
                    da_ranked_efficiencies = map (\<lambda>i. eff ! i) rk,
                    da_improvement_targets = tg\<rparr>"
    unfolding dea_efficiency_all_def Let_def li
    unfolding names_in_use_def [symmetric] nm_def [symmetric] rs sum.case
      eff_def [symmetric] rk_def [symmetric] fr_def [symmetric]
    by (simp add: tg fn rn re)
  show ?thesis
    by (intro exI conjI, rule run)
       (use lr each keys le in \<open>simp_all add: eff_def [symmetric] rk_def fr_def nm_def\<close>)
qed

lemma isclose_one: "isclose e 1 default_rtol frontier_atol \<longleftrightarrow> \<bar>e - 1\<bar> \<le> 11 / 1000000"
  by (simp add: isclose_def default_rtol_def frontier_atol_def)

text \<open>
  Claim C4, as amended. \<^verbatim>\<open>dea_efficiency\<close> (field \<^verbatim>\<open>is_efficient\<close>) and
  \<^verbatim>\<open>dea_efficiency_all\<close> (list \<^verbatim>\<open>frontier_dmus\<close>) classify a DMU as on the efficient
  frontier exactly when \<^verbatim>\<open>np.isclose(efficiency, 1.0, atol=1e-6)\<close> holds, which with
  NumPy's default \<^verbatim>\<open>rtol=1e-5\<close> is \<open>|efficiency - 1| \<le> 1e-6 + 1e-5 * 1 = 1.1e-5\<close>.
\<close>

theorem dea_frontier_tolerance:
  assumes d: "dea_data inputs outputs n p q" and sz: "linprog_sized linprog"
    and srt: "argsort_spec srt" and ln: "n \<le> length (names_in_use dmu_names n)"
    and k: "k < n"
  shows "(\<exists>r. dea_efficiency linprog inputs outputs k orientation = Inr r \<and>
              (\<forall>e. dr_efficiency r = Some e \<longrightarrow>
                   dr_is_efficient r = Some (\<bar>e - 1\<bar> \<le> 11 / 1000000))) \<and>
         (\<exists>R. dea_efficiency_all linprog srt inputs outputs dmu_names orientation = Inr R \<and>
              length (da_efficiencies R) = n \<and>
              (k \<in> set (da_frontier_dmus R) \<longleftrightarrow> \<bar>da_efficiencies R ! k - 1\<bar> \<le> 11 / 1000000))"
proof (rule conjI)
  from dea_efficiency_returns [OF d k sz, of orientation]
  obtain r where r: "dea_efficiency linprog inputs outputs k orientation = Inr r"
    and f: "result_form (scale_key orientation) r" by blast
  have "\<forall>e. dr_efficiency r = Some e \<longrightarrow> dr_is_efficient r = Some (\<bar>e - 1\<bar> \<le> 11 / 1000000)"
    using f by (auto simp: result_form_def isclose_one)
  with r show "\<exists>r. dea_efficiency linprog inputs outputs k orientation = Inr r \<and>
              (\<forall>e. dr_efficiency r = Some e \<longrightarrow>
                   dr_is_efficient r = Some (\<bar>e - 1\<bar> \<le> 11 / 1000000))" by blast
next
  from dea_efficiency_all_run [OF d sz srt ln, of orientation]
  obtain R where R: "dea_efficiency_all linprog srt inputs outputs dmu_names orientation = Inr R"
    and lr: "length (da_results R) = n"
    and eff: "da_efficiencies R =
               map (\<lambda>r. case dr_efficiency r of None \<Rightarrow> 0 | Some e \<Rightarrow> e) (da_results R)"
    and fr: "da_frontier_dmus R =
               filter (\<lambda>i. isclose (da_efficiencies R ! i) 1 default_rtol frontier_atol) [0..<n]"
    by blast
  have "length (da_efficiencies R) = n" by (simp add: eff lr)
  moreover have "k \<in> set (da_frontier_dmus R) \<longleftrightarrow> \<bar>da_efficiencies R ! k - 1\<bar> \<le> 11 / 1000000"
    unfolding fr using k by (simp add: isclose_one)
  ultimately show "\<exists>R. dea_efficiency_all linprog srt inputs outputs dmu_names orientation = Inr R \<and>
              length (da_efficiencies R) = n \<and>
              (k \<in> set (da_frontier_dmus R) \<longleftrightarrow> \<bar>da_efficiencies R ! k - 1\<bar> \<le> 11 / 1000000)"
    using R by blast
qed

text \<open>The two-plan data, their programs, and the solver's answers.\<close>

lemma plan_data: "dea_data plan_inputs plan_outputs 2 1 1"
  by (simp add: dea_data_def shape_def plan_inputs_def plan_outputs_def)

lemma linprog_plans_sized: "linprog_sized linprog_plans"
  by (simp add: linprog_sized_def linprog_plans_def plan_program_def)

lemma plan_problems:
  "dea_problem plan_inputs plan_outputs 0 ''input'' = Inr (plan_program 200000)"
  "dea_problem plan_inputs plan_outputs 1 ''input'' = Inr (plan_program 199999)"
  by code_simp+

text \<open>The answer for the first plan is the optimum of its program: \<open>theta = 0.999995\<close>.\<close>

lemma plan_program_optimum: "lp_optimal (plan_program 200000) [199999 / 200000, 0, 1]"
proof -
  have feas: "lp_feasible (plan_program 200000) [199999 / 200000, 0, 1]"
    by (simp add: lp_feasible_def plan_program_def)
  have "199999 / 200000 \<le> sum_list (map2 (*) (lp_c (plan_program 200000)) y)"
    if "lp_feasible (plan_program 200000) y" for y
  proof -
    from that have "length y = 3" by (simp add: lp_feasible_def plan_program_def)
    then obtain t a b where y: "y = [t, a, b]"
      by (auto simp: length_Suc_conv numeral_3_eq_3)
    from that have "- 200000 * t + 200000 * a + 199999 * b \<le> 0" "- a - b \<le> - 1"
      "0 \<le> a" "0 \<le> b"
      by (simp_all add: lp_feasible_def plan_program_def y)
    then have "199999 / 200000 \<le> t" by linarith
    then show ?thesis by (simp add: plan_program_def y)
  qed
  with feas show ?thesis by (simp add: lp_optimal_def plan_program_def)
qed

lemma plan_run:
  "map_sum id dr_efficiency (dea_efficiency linprog_plans plan_inputs plan_outputs 0 ''input'') =
     Inr (Some (199999 / 200000))"
  "map_sum id dr_is_efficient (dea_efficiency linprog_plans plan_inputs plan_outputs 0 ''input'') =
     Inr (Some True)"
  "map_sum id da_efficiencies
     (dea_efficiency_all linprog_plans argsort_stable plan_inputs plan_outputs None ''input'') =
     Inr [199999 / 200000, 1]"
  "map_sum id da_frontier_dmus
     (dea_efficiency_all linprog_plans argsort_stable plan_inputs plan_outputs None ''input'') =
     Inr [0, 1]"
  by code_simp+

theorem dea_frontier_tolerance_witness:
  "dea_data plan_inputs plan_outputs 2 1 1 \<and> linprog_sized linprog_plans \<and>
   argsort_spec argsort_stable \<and>
   map_sum id dr_efficiency (dea_efficiency linprog_plans plan_inputs plan_outputs 0 ''input'') =
     Inr (Some (199999 / 200000)) \<and>
   map_sum id dr_is_efficient (dea_efficiency linprog_plans plan_inputs plan_outputs 0 ''input'') =
     Inr (Some True) \<and>
   map_sum id da_frontier_dmus
     (dea_efficiency_all linprog_plans argsort_stable plan_inputs plan_outputs None ''input'') =
     Inr [0, 1] \<and>
   \<bar>199999 / 200000 - 1\<bar> \<le> (11 / 1000000 :: real)"
proof -
  have ln: "2 \<le> length (names_in_use None 2)" by (simp add: names_in_use_None)
  have k: "(0::nat) < 2" by simp
  note main = dea_frontier_tolerance
    [where linprog = linprog_plans and orientation = "''input''",
      OF plan_data linprog_plans_sized argsort_stable_spec ln k]
  have "\<bar>199999 / 200000 - 1\<bar> \<le> (11 / 1000000 :: real)" by simp
  with main plan_data linprog_plans_sized argsort_stable_spec plan_run show ?thesis
    by blast
qed

text \<open>
  Claim C4 as it is stated fails: the first plan's efficiency 0.999995 is not within
  1e-6 of 1.0, yet \<^verbatim>\<open>dea_efficiency\<close> flags it efficient and \<^verbatim>\<open>dea_efficiency_all\<close>
  lists it on the frontier.
\<close>

theorem dea_frontier_looser_than_1e_6:
  "dea_problem plan_inputs plan_outputs 0 ''input'' = Inr (plan_program 200000) \<and>
   lp_optimal (plan_program 200000) [199999 / 200000, 0, 1] \<and>
   map_sum id dr_efficiency (dea_efficiency linprog_plans plan_inputs plan_outputs 0 ''input'') =
     Inr (Some (199999 / 200000)) \<and>
   map_sum id dr_is_efficient (dea_efficiency linprog_plans plan_inputs plan_outputs 0 ''input'') =
     Inr (Some True) \<and>
   map_sum id da_frontier_dmus
     (dea_efficiency_all linprog_plans argsort_stable plan_inputs plan_outputs None ''input'') =
     Inr [0, 1] \<and>
   \<not> \<bar>199999 / 200000 - 1\<bar> \<le> (1 / 1000000 :: real)"
proof -
  have "\<not> \<bar>199999 / 200000 - 1\<bar> \<le> (1 / 1000000 :: real)" by simp
  with plan_problems(1) plan_program_optimum plan_run show ?thesis by blast
qed

text \<open>The default names \<^verbatim>\<open>DMU_0\<close>, \<^verbatim>\<open>DMU_1\<close>, ... are distinct, as claim C5 needs them.\<close>

lemma str_nat_nonempty: "str_nat n \<noteq> []"
  by (subst str_nat.simps) simp

lemma str_nat_inj: "str_nat a = str_nat b \<Longrightarrow> a = b"
proof (induction a arbitrary: b rule: str_nat.induct)
  case (1 n)
  have small: "str_nat m = [char_of (48 + m)]" if "m < 10" for m
    using that by (subst str_nat.simps) simp
  have large: "str_nat m = str_nat (m div 10) @ [char_of (48 + m mod 10)]" if "\<not> m < 10" for m
    using that by (subst str_nat.simps) simp
  have len_small: "length (str_nat m) = 1" if "m < 10" for m
    by (simp add: small [OF that])
  have len_large: "1 < length (str_nat m)" if "\<not> m < 10" for m
  proof -
    have "length (str_nat m) = Suc (length (str_nat (m div 10)))"
      by (subst large [OF that]) simp
    then show ?thesis using str_nat_nonempty [of "m div 10"] by simp
  qed
  have digit: "x = y" if "char_of (48 + x) = (char_of (48 + y) :: char)" "x < 10" "y < 10"
    for x y :: nat
  proof -
    from that(1) have "(of_char (char_of (48 + x) :: char) :: nat) =
                       of_char (char_of (48 + y) :: char)" by (rule arg_cong)
    then have "(48 + x) mod 256 = (48 + y) mod 256" by (simp only: of_char_of)
    with that(2,3) show ?thesis by simp
  qed
  show ?case
  proof (cases "n < 10")
    case True
    show ?thesis
    proof (cases "b < 10")
      case b: True
      from "1.prems" have "char_of (48 + n) = (char_of (48 + b) :: char)"
        by (simp add: small [OF True] small [OF b])
      then show ?thesis by (rule digit [OF _ True b])
    next
      case b: False
      from "1.prems" have "length (str_nat n) = length (str_nat b)" by simp
      then show ?thesis using len_small [OF True] len_large [OF b] by simp
    qed
  next
    case False
    show ?thesis
    proof (cases "b < 10")
      case b: True
      from "1.prems" have "length (str_nat n) = length (str_nat b)" by simp
      then show ?thesis using len_small [OF b] len_large [OF False] by simp
    next
      case b: False
      have eq: "str_nat (n div 10) @ [char_of (48 + n mod 10)] =
                str_nat (b div 10) @ [char_of (48 + b mod 10)]"
        using "1.prems" large [OF False] large [OF b] by metis
      then have "str_nat (n div 10) = str_nat (b div 10)"
        and c: "char_of (48 + n mod 10) = (char_of (48 + b mod 10) :: char)" by simp_all
      from "1.IH" [OF False this(1)] have dv: "n div 10 = b div 10" .
      from digit [OF c] have md: "n mod 10 = b mod 10" by simp
      from dv md show ?thesis by (metis div_mult_mod_eq)
    qed
  qed
qed

lemma default_names_distinct: "distinct (take n (names_in_use None n))"
proof -
  have "inj_on (\<lambda>i. ''DMU_'' @ str_nat i) (set [0..<n])"
    by (rule inj_onI) (simp, rule str_nat_inj)
  then have "distinct (map (\<lambda>i. ''DMU_'' @ str_nat i) [0..<n])"
    by (simp add: distinct_map)
  then show ?thesis by (simp add: names_in_use_def)
qed

text \<open>
  Claim C5. If the LP solver fails for some DMU, \<^verbatim>\<open>dea_efficiency\<close> returns a structured
  result whose efficiency, raw value, lambda, slack, flag and peer fields are all
  \<^verbatim>\<open>None\<close> and whose status is \<^verbatim>\<open>'failed: '\<close> followed by the solver's message; it does
  not raise. \<^verbatim>\<open>dea_efficiency_all\<close> completes over all DMUs, puts efficiency 0 for the
  failed DMU into the efficiencies vector, which the ranking is sorted from, and leaves
  the DMU out of \<^verbatim>\<open>frontier_dmus\<close> and out of \<^verbatim>\<open>improvement_targets\<close> (whose keys are DMU
  names, taken to be distinct).
\<close>

theorem dea_failure_is_reported:
  assumes d: "dea_data inputs outputs n p q" and sz: "linprog_sized linprog"
    and srt: "argsort_spec srt" and ln: "n \<le> length (names_in_use dmu_names n)"
    and dist: "distinct (take n (names_in_use dmu_names n))"
    and k: "k < n" and fails: "solver_fails linprog inputs outputs k orientation"
  shows "(\<exists>P. dea_problem inputs outputs k orientation = Inr P \<and>
              dea_efficiency linprog inputs outputs k orientation =
                Inr \<lparr>dr_efficiency = None, dr_scale_key = scale_key orientation,
                     dr_scale = None, dr_lambdas = None, dr_slack_inputs = None,
                     dr_slack_outputs = None, dr_is_efficient = None, dr_peers = None,
                     dr_status = ''failed: '' @ lp_message (linprog P)\<rparr>) \<and>
         (\<exists>R. dea_efficiency_all linprog srt inputs outputs dmu_names orientation = Inr R \<and>
              length (da_efficiencies R) = n \<and>
              da_efficiencies R ! k = 0 \<and>
              da_ranking R = srt (map uminus (da_efficiencies R)) \<and>
              k \<in> set (da_ranking R) \<and>
              k \<notin> set (da_frontier_dmus R) \<and>
              names_in_use dmu_names n ! k \<notin> fst ` set (da_improvement_targets R))"
proof (rule conjI)
  from dea_problem_ok [OF d, of k orientation]
  obtain P where P: "dea_problem inputs outputs k orientation = Inr P" by blast
  with fails have "\<not> lp_success (linprog P)" by (simp add: solver_fails_def)
  from dea_efficiency_failed [where linprog = linprog, OF d k P this] P
  show "\<exists>P. dea_problem inputs outputs k orientation = Inr P \<and>
              dea_efficiency linprog inputs outputs k orientation =
                Inr \<lparr>dr_efficiency = None, dr_scale_key = scale_key orientation,
                     dr_scale = None, dr_lambdas = None, dr_slack_inputs = None,
                     dr_slack_outputs = None, dr_is_efficient = None, dr_peers = None,
                     dr_status = ''failed: '' @ lp_message (linprog P)\<rparr>"
    by (simp add: failed_result_def)
next
  let ?nm = "names_in_use dmu_names n"
  from dea_efficiency_all_run [OF d sz srt ln, of orientation]
  obtain R where R: "dea_efficiency_all linprog srt inputs outputs dmu_names orientation = Inr R"
    and lr: "length (da_results R) = n"
    and each: "\<forall>i < n. solver_fails linprog inputs outputs i orientation \<longrightarrow>
                        dr_efficiency (da_results R ! i) = None"
    and eff: "da_efficiencies R =
               map (\<lambda>r. case dr_efficiency r of None \<Rightarrow> 0 | Some e \<Rightarrow> e) (da_results R)"
    and rk: "da_ranking R = srt (map uminus (da_efficiencies R))"
    and fr: "da_frontier_dmus R =
               filter (\<lambda>i. isclose (da_efficiencies R ! i) 1 default_rtol frontier_atol) [0..<n]"
    and keys: "fst ` set (da_improvement_targets R) \<subseteq>
               (\<lambda>i. ?nm ! i) `
                 {i \<in> set [0..<n]. dr_efficiency (da_results R ! i) \<noteq> None \<and>
                                   dr_is_efficient (da_results R ! i) \<noteq> Some True}"
    by blast
  have none: "dr_efficiency (da_results R ! k) = None" using each k fails by blast
  have le: "length (da_efficiencies R) = n" by (simp add: eff lr)
  have zero: "da_efficiencies R ! k = 0" using none k lr by (simp add: eff)
  have inrk: "k \<in> set (da_ranking R)"
    using srt k le unfolding rk argsort_spec_def by simp
  have notfr: "k \<notin> set (da_frontier_dmus R)"
    unfolding fr using zero by (simp add: isclose_one)
  have nokey: "?nm ! k \<notin> fst ` set (da_improvement_targets R)"
  proof
    assume "?nm ! k \<in> fst ` set (da_improvement_targets R)"
    with keys obtain i where i: "i < n" "?nm ! i = ?nm ! k"
      and some: "dr_efficiency (da_results R ! i) \<noteq> None" by auto
    have eq: "take n ?nm ! i = take n ?nm ! k" using i k by simp
    have li: "i < length (take n ?nm)" and lk: "k < length (take n ?nm)"
      using i k ln by simp_all
    from nth_eq_iff_index_eq [OF dist li lk] eq have "i = k" by blast
    with some none show False by simp
  qed
  from R le zero rk inrk notfr nokey
  show "\<exists>R. dea_efficiency_all linprog srt inputs outputs dmu_names orientation = Inr R \<and>
              length (da_efficiencies R) = n \<and>
              da_efficiencies R ! k = 0 \<and>
              da_ranking R = srt (map uminus (da_efficiencies R)) \<and>
              k \<in> set (da_ranking R) \<and>
              k \<notin> set (da_frontier_dmus R) \<and>
              names_in_use dmu_names n ! k \<notin> fst ` set (da_improvement_targets R)"
    by blast
qed

text \<open>The three-plan data: the solver fails on the first plan.\<close>

lemma trio_data: "dea_data trio_inputs trio_outputs 3 1 1"
  by (simp add: dea_data_def shape_def trio_inputs_def trio_outputs_def)

lemma linprog_trio_sized: "linprog_sized linprog_trio"
  by (simp add: linprog_sized_def linprog_trio_def trio_program_def)

lemma trio_fails: "solver_fails linprog_trio trio_inputs trio_outputs 0 ''input''"
  by code_simp

lemma trio_run:
  "dea_efficiency linprog_trio trio_inputs trio_outputs 0 ''input'' =
     Inr \<lparr>dr_efficiency = None, dr_scale_key = ''theta'', dr_scale = None, dr_lambdas = None,
          dr_slack_inputs = None, dr_slack_outputs = None, dr_is_efficient = None,
          dr_peers = None, dr_status = ''failed: Infeasible''\<rparr>"
  "map_sum id da_efficiencies
     (dea_efficiency_all linprog_trio argsort_stable trio_inputs trio_outputs None ''input'') =
     Inr [0, 1, 199999 / 400000]"
  "map_sum id da_ranking
     (dea_efficiency_all linprog_trio argsort_stable trio_inputs trio_outputs None ''input'') =
     Inr [1, 2, 0]"
  "map_sum id da_frontier_dmus
     (dea_efficiency_all linprog_trio argsort_stable trio_inputs trio_outputs None ''input'') =
     Inr [1]"
  "map_sum id da_improvement_targets
     (dea_efficiency_all linprog_trio argsort_stable trio_inputs trio_outputs None ''input'') =
     Inr [(''DMU_2'', InputTarget [400000] [199999] [200001] (200001 / 4000))]"
  by code_simp+

theorem dea_failure_is_reported_witness:
  "dea_data trio_inputs trio_outputs 3 1 1 \<and> linprog_sized linprog_trio \<and>
   argsort_spec argsort_stable \<and>
   solver_fails linprog_trio trio_inputs trio_outputs 0 ''input'' \<and>
   dea_efficiency linprog_trio trio_inputs trio_outputs 0 ''input'' =
     Inr \<lparr>dr_efficiency = None, dr_scale_key = ''theta'', dr_scale = None, dr_lambdas = None,
          dr_slack_inputs = None, dr_slack_outputs = None, dr_is_efficient = None,
          dr_peers = None, dr_status = ''failed: Infeasible''\<rparr> \<and>
   map_sum id da_efficiencies
     (dea_efficiency_all linprog_trio argsort_stable trio_inputs trio_outputs None ''input'') =
     Inr [0, 1, 199999 / 400000] \<and>
   map_sum id da_ranking
     (dea_efficiency_all linprog_trio argsort_stable trio_inputs trio_outputs None ''input'') =
     Inr [1, 2, 0] \<and>
   map_sum id da_frontier_dmus
     (dea_efficiency_all linprog_trio argsort_stable trio_inputs trio_outputs None ''input'') =
     Inr [1] \<and>
   map_sum id da_improvement_targets
     (dea_efficiency_all linprog_trio argsort_stable trio_inputs trio_outputs None ''input'') =
     Inr [(''DMU_2'', InputTarget [400000] [199999] [200001] (200001 / 4000))]"
proof -
  have ln: "3 \<le> length (names_in_use None 3)" by (simp add: names_in_use_None)
  have dist: "distinct (take 3 (names_in_use None 3))" by (rule default_names_distinct)
  have k: "(0::nat) < 3" by simp
  note main = dea_failure_is_reported
    [where linprog = linprog_trio and orientation = "''input''",
      OF trio_data linprog_trio_sized argsort_stable_spec ln dist k trio_fails]
  from main trio_data linprog_trio_sized argsort_stable_spec trio_fails trio_run
  show ?thesis by blast
qed

end
